theory Spec2Isabelle
  imports Complex_Main "HOL-Library.Char_ord" "HOL-Library.List_Lexorder"
begin

section \<open>The SimCard management API (malin.py) as a state machine over two tables\<close>

text \<open>
  The server keeps its state in an SQLite file with the tables \<open>shops\<close> and
  \<open>simcards\<close> (and \<open>users\<close>, which only \<open>login\<close> reads and nothing writes after
  start-up; it is left out). A table is the list of its rows in storage (rowid) order: an
  \<open>INSERT\<close> appends, \<open>UPDATE ... WHERE\<close> maps over the rows, \<open>DELETE ... WHERE\<close> filters
  them, \<open>SELECT ... WHERE\<close> filters and \<open>fetchone\<close> takes the first row or \<open>None\<close>.

  Every handler takes the database and returns the database it leaves behind together
  with either the error it raised or its JSON result. A handler that raises before
  \<open>db.commit()\<close> leaves the database as it found it: \<open>get_db\<close> closes the connection
  without committing.

  What the handlers draw from the environment is an argument of the model:
  \<open>str(uuid.uuid4())\<close> is the argument \<open>shop_id\<close>/\<open>simcard_id\<close> of the two create
  handlers, \<open>datetime.now().isoformat()\<close> is the argument \<open>now\<close>. ISO-8601 texts of one
  format are ordered in time exactly as they are ordered as strings, which is the order
  used on timestamps below.
\<close>

subsection \<open>Rows\<close>

type_synonym timestamp = string

record shop =
  sh_id :: string
  sh_name :: string
  sh_ownerName :: string
  sh_ownerPhone :: string
  sh_address :: string
  sh_latitude :: "real option"
  sh_longitude :: "real option"
  sh_status :: string
  sh_region :: string
  sh_assignedSimCards :: "string list"
  sh_addedDate :: timestamp

text \<open>
  The column \<open>assignedSimCards\<close> is TEXT holding a JSON array; the handlers that return
  a shop pass it through \<open>json.loads\<close>. The model keeps the decoded list: the text
  \<open>"[]"\<close> that \<open>create_shop\<close> inserts is the empty list. \<open>latitude\<close> and \<open>longitude\<close>
  are stored and returned as they come and never computed with.
\<close>

record simcard =
  sc_id :: string
  sc_code :: string
  sc_status :: string
  sc_assignedTo :: "string option"
  sc_assignedShopName :: "string option"
  sc_addedDate :: timestamp
  sc_saleDate :: "timestamp option"
  sc_lastChecked :: "timestamp option"

record db =
  shops :: "shop list"
  simcards :: "simcard list"

definition init_database :: db where
  "init_database = \<lparr>shops = [], simcards = []\<rparr>"

text \<open>
  The schema's constraints: \<open>id TEXT PRIMARY KEY\<close> on both tables and
  \<open>code TEXT UNIQUE\<close> on \<open>simcards\<close>. SQLite refuses every statement that would break
  them, so they hold of every database the server can be in.
\<close>

definition db_constraints :: "db \<Rightarrow> bool" where
  "db_constraints d \<longleftrightarrow>
     distinct (map sh_id (shops d)) \<and>
     distinct (map sc_id (simcards d)) \<and>
     distinct (map sc_code (simcards d))"

subsection \<open>Requests (the pydantic models)\<close>

record ShopCreate =
  c_name :: string
  c_ownerName :: string
  c_ownerPhone :: string
  c_address :: string
  c_latitude :: "real option"
  c_longitude :: "real option"
  c_region :: string

record ShopUpdate =
  u_name :: "string option"
  u_ownerName :: "string option"
  u_ownerPhone :: "string option"
  u_address :: "string option"
  u_latitude :: "real option"
  u_longitude :: "real option"
  u_status :: "string option"
  u_region :: "string option"

record SimCardUpdate =
  su_code :: "string option"
  su_status :: "string option"
  su_assignedTo :: "string option"
  su_assignedShopName :: "string option"

record AssignSimCardsRequest =
  r_shopId :: string
  r_count :: int

subsection \<open>Errors\<close>

text \<open>
  \<open>HTTPException status detail\<close> is what the handlers raise themselves: 404 is the
  specification's NotFound, 400 its BadRequest and, with the detail
  \<open>SimCard code already exists\<close>, its Conflict. An exception that no handler catches
  reaches the framework, which answers 500.
\<close>

datatype py_exception = IntegrityError | OverflowError | TypeError

datatype error = HTTPException nat string | Unhandled py_exception

subsection \<open>SQL and Python helpers\<close>

definition fetchone :: "'a list \<Rightarrow> 'a option" where
  "fetchone rows = (case rows of [] \<Rightarrow> None | r # _ \<Rightarrow> Some r)"

text \<open>\<open>LIMIT n\<close>: SQLite puts no upper bound on the rows when \<open>n\<close> is negative.\<close>

definition sql_limit :: "int \<Rightarrow> 'a list \<Rightarrow> 'a list" where
  "sql_limit n rows = (if n < 0 then rows else take (nat n) rows)"

text \<open>
  The \<open>sqlite3\<close> module binds a Python \<open>int\<close> as a 64-bit INTEGER and raises
  \<open>OverflowError\<close> for a value outside that range.
\<close>

definition fits_int64 :: "int \<Rightarrow> bool" where
  "fits_int64 n \<longleftrightarrow> - (2 ^ 63) \<le> n \<and> n < 2 ^ 63"

text \<open>\<open>str\<close> of a non-negative \<open>int\<close>, as the f-string of the 400 detail renders it.\<close>

fun str_nat :: "nat \<Rightarrow> string" where
  "str_nat n =
     (if n < 10 then [''0123456789'' ! n]
      else str_nat (n div 10) @ [''0123456789'' ! (n mod 10)])"

declare str_nat.simps [simp del]

definition select_shop :: "db \<Rightarrow> string \<Rightarrow> shop option" where
  \<comment> \<open>\<open>SELECT * FROM shops WHERE id = ?\<close> and \<open>fetchone\<close>\<close>
  "select_shop d shop_id = fetchone (filter (\<lambda>s. sh_id s = shop_id) (shops d))"

definition select_simcard :: "db \<Rightarrow> string \<Rightarrow> simcard option" where
  \<comment> \<open>\<open>SELECT * FROM simcards WHERE id = ?\<close> and \<open>fetchone\<close>\<close>
  "select_simcard d simcard_id = fetchone (filter (\<lambda>c. sc_id c = simcard_id) (simcards d))"

subsection \<open>Shop endpoints\<close>

definition get_shops :: "db \<Rightarrow> shop list" where
  \<comment> \<open>\<open>ORDER BY addedDate DESC\<close>: the sort is stable, rows of equal date stay in rowid order\<close>
  "get_shops d = rev (sort_key sh_addedDate (rev (shops d)))"

definition create_shop ::
  "db \<Rightarrow> string \<Rightarrow> timestamp \<Rightarrow> ShopCreate \<Rightarrow> db \<times> (error + shop)" where
  "create_shop d shop_id now shop =
     (if shop_id \<in> set (map sh_id (shops d)) then (d, Inl (Unhandled IntegrityError))
      else
        let d' = d\<lparr>shops := shops d @
                  [\<lparr>sh_id = shop_id, sh_name = c_name shop, sh_ownerName = c_ownerName shop,
                    sh_ownerPhone = c_ownerPhone shop, sh_address = c_address shop,
                    sh_latitude = c_latitude shop, sh_longitude = c_longitude shop,
                    sh_status = ''active'', sh_region = c_region shop,
                    sh_assignedSimCards = [], sh_addedDate = now\<rparr>]\<rparr>
        in (case select_shop d' shop_id of
              None \<Rightarrow> (d', Inl (Unhandled TypeError))
            | Some created_shop \<Rightarrow> (d', Inr created_shop)))"

text \<open>
  \<open>update_fields\<close>: the dictionary of the columns to set, one entry for each field of
  the request that is not \<open>None\<close>, here the list of the assignments it stands for.
\<close>

definition shop_update_fields :: "ShopUpdate \<Rightarrow> (shop \<Rightarrow> shop) list" where
  "shop_update_fields shop =
     (case u_name shop of None \<Rightarrow> [] | Some v \<Rightarrow> [\<lambda>r. r\<lparr>sh_name := v\<rparr>]) @
     (case u_ownerName shop of None \<Rightarrow> [] | Some v \<Rightarrow> [\<lambda>r. r\<lparr>sh_ownerName := v\<rparr>]) @
     (case u_ownerPhone shop of None \<Rightarrow> [] | Some v \<Rightarrow> [\<lambda>r. r\<lparr>sh_ownerPhone := v\<rparr>]) @
     (case u_address shop of None \<Rightarrow> [] | Some v \<Rightarrow> [\<lambda>r. r\<lparr>sh_address := v\<rparr>]) @
     (case u_latitude shop of None \<Rightarrow> [] | Some v \<Rightarrow> [\<lambda>r. r\<lparr>sh_latitude := Some v\<rparr>]) @
     (case u_longitude shop of None \<Rightarrow> [] | Some v \<Rightarrow> [\<lambda>r. r\<lparr>sh_longitude := Some v\<rparr>]) @
     (case u_status shop of None \<Rightarrow> [] | Some v \<Rightarrow> [\<lambda>r. r\<lparr>sh_status := v\<rparr>]) @
     (case u_region shop of None \<Rightarrow> [] | Some v \<Rightarrow> [\<lambda>r. r\<lparr>sh_region := v\<rparr>])"

definition sql_set :: "('r \<Rightarrow> 'r) list \<Rightarrow> 'r \<Rightarrow> 'r" where
  \<comment> \<open>the \<open>SET\<close> clause applied to one row\<close>
  "sql_set update_fields row = fold (\<lambda>f r. f r) update_fields row"

definition update_shop :: "db \<Rightarrow> string \<Rightarrow> ShopUpdate \<Rightarrow> db \<times> (error + shop)" where
  "update_shop d shop_id shop =
     (case select_shop d shop_id of
        None \<Rightarrow> (d, Inl (HTTPException 404 ''Shop not found''))
      | Some existing_shop \<Rightarrow>
          let update_fields = shop_update_fields shop;
              d' = (if 0 < length update_fields
                    then d\<lparr>shops := map (\<lambda>r. if sh_id r = shop_id
                                                then sql_set update_fields r else r) (shops d)\<rparr>
                    else d)
          in (case select_shop d' shop_id of
                None \<Rightarrow> (d', Inl (Unhandled TypeError))
              | Some updated_shop \<Rightarrow> (d', Inr updated_shop)))"

definition delete_shop :: "db \<Rightarrow> string \<Rightarrow> db \<times> (error + unit)" where
  "delete_shop d shop_id =
     (case select_shop d shop_id of
        None \<Rightarrow> (d, Inl (HTTPException 404 ''Shop not found''))
      | Some shop \<Rightarrow>
          (d\<lparr>shops := filter (\<lambda>s. sh_id s \<noteq> shop_id) (shops d),
             simcards := map (\<lambda>c. if sc_assignedTo c = Some shop_id
                                    then c\<lparr>sc_status := ''available'', sc_assignedTo := None,
                                           sc_assignedShopName := None\<rparr>
                                    else c) (simcards d)\<rparr>,
           Inr ()))"

subsection \<open>SimCard endpoints\<close>

definition get_simcards :: "db \<Rightarrow> simcard list" where
  \<comment> \<open>\<open>ORDER BY addedDate DESC\<close>: the sort is stable, rows of equal date stay in rowid order\<close>
  "get_simcards d = rev (sort_key sc_addedDate (rev (simcards d)))"

text \<open>
  The \<open>INSERT\<close> raises \<open>sqlite3.IntegrityError\<close> when the identifier or the code is
  already in the table; the handler turns either into the 400.
\<close>

definition create_simcard ::
  "db \<Rightarrow> string \<Rightarrow> timestamp \<Rightarrow> string \<Rightarrow> db \<times> (error + simcard)" where
  "create_simcard d simcard_id now code =
     (if simcard_id \<in> set (map sc_id (simcards d)) \<or> code \<in> set (map sc_code (simcards d))
      then (d, Inl (HTTPException 400 ''SimCard code already exists''))
      else
        let d' = d\<lparr>simcards := simcards d @
                  [\<lparr>sc_id = simcard_id, sc_code = code, sc_status = ''available'',
                    sc_assignedTo = None, sc_assignedShopName = None, sc_addedDate = now,
                    sc_saleDate = None, sc_lastChecked = None\<rparr>]\<rparr>
        in (case select_simcard d' simcard_id of
              None \<Rightarrow> (d', Inl (Unhandled TypeError))
            | Some created_simcard \<Rightarrow> (d', Inr created_simcard)))"

definition simcard_update_fields ::
  "timestamp \<Rightarrow> SimCardUpdate \<Rightarrow> (simcard \<Rightarrow> simcard) list" where
  "simcard_update_fields now simcard =
     (case su_code simcard of None \<Rightarrow> [] | Some v \<Rightarrow> [\<lambda>r. r\<lparr>sc_code := v\<rparr>]) @
     (case su_status simcard of
        None \<Rightarrow> []
      | Some v \<Rightarrow> (\<lambda>r. r\<lparr>sc_status := v\<rparr>) #
                  (if v = ''sold'' then [\<lambda>r. r\<lparr>sc_saleDate := Some now\<rparr>] else [])) @
     (case su_assignedTo simcard of
        None \<Rightarrow> [] | Some v \<Rightarrow> [\<lambda>r. r\<lparr>sc_assignedTo := Some v\<rparr>]) @
     (case su_assignedShopName simcard of
        None \<Rightarrow> [] | Some v \<Rightarrow> [\<lambda>r. r\<lparr>sc_assignedShopName := Some v\<rparr>])"

text \<open>
  The \<open>UPDATE\<close> of \<open>update_simcard\<close> can set \<open>code\<close>; it raises
  \<open>sqlite3.IntegrityError\<close> when the table would then hold a code twice, and this
  handler does not catch it.
\<close>

definition update_simcard ::
  "db \<Rightarrow> string \<Rightarrow> timestamp \<Rightarrow> SimCardUpdate \<Rightarrow> db \<times> (error + simcard)" where
  "update_simcard d simcard_id now simcard =
     (case select_simcard d simcard_id of
        None \<Rightarrow> (d, Inl (HTTPException 404 ''SimCard not found''))
      | Some existing_simcard \<Rightarrow>
          let update_fields = simcard_update_fields now simcard;
              rows = map (\<lambda>r. if sc_id r = simcard_id then sql_set update_fields r else r)
                       (simcards d)
          in if 0 < length update_fields \<and> \<not> distinct (map sc_code rows)
             then (d, Inl (Unhandled IntegrityError))
             else
               let d' = (if 0 < length update_fields then d\<lparr>simcards := rows\<rparr> else d)
               in (case select_simcard d' simcard_id of
                     None \<Rightarrow> (d', Inl (Unhandled TypeError))
                   | Some updated_simcard \<Rightarrow> (d', Inr updated_simcard)))"

definition delete_simcard :: "db \<Rightarrow> string \<Rightarrow> db \<times> (error + unit)" where
  "delete_simcard d simcard_id =
     (case select_simcard d simcard_id of
        None \<Rightarrow> (d, Inl (HTTPException 404 ''SimCard not found''))
      | Some simcard \<Rightarrow>
          (d\<lparr>simcards := filter (\<lambda>c. sc_id c \<noteq> simcard_id) (simcards d)\<rparr>, Inr ()))"

record assigned_card =
  ac_id :: string
  ac_code :: string
  ac_status :: string
  ac_assignedTo :: string
  ac_assignedShopName :: string

definition assign_one :: "string \<Rightarrow> string \<Rightarrow> simcard \<Rightarrow> simcard" where
  \<comment> \<open>\<open>SET status = 'assigned', assignedTo = ?, assignedShopName = ?\<close>\<close>
  "assign_one shopId shop_name c =
     c\<lparr>sc_status := ''assigned'', sc_assignedTo := Some shopId,
       sc_assignedShopName := Some shop_name\<rparr>"

definition assign_simcards_to_shop ::
  "db \<Rightarrow> AssignSimCardsRequest \<Rightarrow> db \<times> (error + assigned_card list)" where
  "assign_simcards_to_shop d request =
     (case select_shop d (r_shopId request) of
        None \<Rightarrow> (d, Inl (HTTPException 404 ''Shop not found''))
      | Some shop \<Rightarrow>
          if \<not> fits_int64 (r_count request) then (d, Inl (Unhandled OverflowError))
          else
            let available_simcards =
                  sql_limit (r_count request)
                    (filter (\<lambda>c. sc_status c = ''available'') (simcards d))
            in if int (length available_simcards) < r_count request
               then (d, Inl (HTTPException 400
                       (''Only '' @ str_nat (length available_simcards) @
                        '' simcards available'')))
               else
                 (fold (\<lambda>simcard d'.
                          d'\<lparr>simcards :=
                               map (\<lambda>c. if sc_id c = sc_id simcard
                                        then assign_one (r_shopId request) (sh_name shop) c
                                        else c) (simcards d')\<rparr>)
                    available_simcards d,
                  Inr (map (\<lambda>simcard.
                              \<lparr>ac_id = sc_id simcard, ac_code = sc_code simcard,
                               ac_status = ''assigned'', ac_assignedTo = r_shopId request,
                               ac_assignedShopName = sh_name shop\<rparr>)
                         available_simcards)))"

text \<open>
  \<open>check_simcard_status\<close> returns \<open>dict(simcard)\<close>, the row it fetched before the
  \<open>UPDATE\<close>.
\<close>

definition check_simcard_status ::
  "db \<Rightarrow> string \<Rightarrow> timestamp \<Rightarrow> db \<times> (error + simcard)" where
  "check_simcard_status d simcard_id now =
     (case select_simcard d simcard_id of
        None \<Rightarrow> (d, Inl (HTTPException 404 ''SimCard not found''))
      | Some simcard \<Rightarrow>
          (d\<lparr>simcards := map (\<lambda>c. if sc_id c = simcard_id then c\<lparr>sc_lastChecked := Some now\<rparr>
                                    else c) (simcards d)\<rparr>,
           Inr simcard))"

record check_result =
  cr_simCardId :: string
  cr_status :: string
  cr_isSold :: bool
  cr_saleDate :: "timestamp option"
  cr_lastChecked :: timestamp

text \<open>
  \<open>auto_check_simcards\<close>: the argument is the value of \<open>"id"\<close> in each element of
  \<open>simCards\<close>, \<open>None\<close> where the element has none (the \<open>SELECT\<close> then finds no row).
\<close>

fun auto_check_loop ::
  "timestamp \<Rightarrow> string option list \<Rightarrow> db \<Rightarrow> check_result list \<Rightarrow> db \<times> check_result list" where
  "auto_check_loop timestamp [] d results = (d, results)"
| "auto_check_loop timestamp (simcard_id # rest) d results =
     (case (case simcard_id of None \<Rightarrow> None | Some i \<Rightarrow> select_simcard d i) of
        None \<Rightarrow> auto_check_loop timestamp rest d results
      | Some simcard \<Rightarrow>
          auto_check_loop timestamp rest
            (d\<lparr>simcards := map (\<lambda>c. if Some (sc_id c) = simcard_id
                                      then c\<lparr>sc_lastChecked := Some timestamp\<rparr> else c)
                               (simcards d)\<rparr>)
            (results @
             [\<lparr>cr_simCardId = sc_id simcard, cr_status = sc_status simcard,
               cr_isSold = (sc_status simcard = ''sold''), cr_saleDate = sc_saleDate simcard,
               cr_lastChecked = timestamp\<rparr>]))"

definition auto_check_simcards ::
  "db \<Rightarrow> timestamp \<Rightarrow> string option list \<Rightarrow> db \<times> (check_result list \<times> timestamp)" where
  "auto_check_simcards d timestamp simcards_req =
     (let (d', results) = auto_check_loop timestamp simcards_req d []
      in (d', (results, timestamp)))"

subsection \<open>Statistics endpoints\<close>

text \<open>
  \<open>get_statistics\<close>: the six \<open>COUNT(*)\<close> queries and the shops per region. The
  response's \<open>salesByDate\<close>, a calendar computation over the last seven days, is not
  modelled.
\<close>

record statistics =
  totalShops :: nat
  activeShops :: nat
  totalSimCards :: nat
  availableSimCards :: nat
  assignedSimCards :: nat
  soldSimCards :: nat
  regionStats :: "string \<rightharpoonup> nat"

definition get_statistics :: "db \<Rightarrow> statistics" where
  "get_statistics d =
     \<lparr>totalShops = length (shops d),
      activeShops = length (filter (\<lambda>s. sh_status s = ''active'') (shops d)),
      totalSimCards = length (simcards d),
      availableSimCards = length (filter (\<lambda>c. sc_status c = ''available'') (simcards d)),
      assignedSimCards = length (filter (\<lambda>c. sc_status c = ''assigned'') (simcards d)),
      soldSimCards = length (filter (\<lambda>c. sc_status c = ''sold'') (simcards d)),
      regionStats =
        fold (\<lambda>region stats.
                stats(region \<mapsto> length (filter (\<lambda>s. sh_region s = region) (shops d))))
          (remdups (map sh_region (shops d))) Map.empty\<rparr>"

text \<open>
  \<open>get_shop_sales_stats\<close>: \<open>shops s LEFT JOIN simcards sc ON s.id = sc.assignedTo\<close>
  pairs a shop with each of its cards, or with a row of NULLs when it has none;
  \<open>GROUP BY s.id, s.name\<close> makes one result row for each (id, name) among the joined
  rows; \<open>COUNT(e)\<close> counts the rows of the group where \<open>e\<close> is not NULL. The loop then
  stores the result rows in a dictionary under the shop's id.
\<close>

record shop_sales =
  sold :: nat
  available :: nat
  total :: nat

definition joined_rows :: "simcard list \<Rightarrow> shop \<Rightarrow> (shop \<times> simcard option) list" where
  \<comment> \<open>the joined rows of one shop\<close>
  "joined_rows scs s =
     (case filter (\<lambda>sc. sc_assignedTo sc = Some (sh_id s)) scs of
        [] \<Rightarrow> [(s, None)]
      | m # ms \<Rightarrow> map (\<lambda>sc. (s, Some sc)) (m # ms))"

definition left_join :: "shop list \<Rightarrow> simcard list \<Rightarrow> (shop \<times> simcard option) list" where
  "left_join ss scs = concat (map (joined_rows scs) ss)"

definition count_status :: "string \<Rightarrow> (shop \<times> simcard option) list \<Rightarrow> nat" where
  \<comment> \<open>\<open>COUNT(CASE WHEN sc.status = ? THEN 1 END)\<close>\<close>
  "count_status st rows =
     length (filter (\<lambda>(s, sc). case sc of None \<Rightarrow> False | Some c \<Rightarrow> sc_status c = st) rows)"

definition count_sc_id :: "(shop \<times> simcard option) list \<Rightarrow> nat" where
  \<comment> \<open>\<open>COUNT(sc.id)\<close>\<close>
  "count_sc_id rows = length (filter (\<lambda>(s, sc). sc \<noteq> None) rows)"

definition group_stats :: "(shop \<times> simcard option) list \<Rightarrow> string \<Rightarrow> string \<Rightarrow> shop_sales" where
  \<comment> \<open>the three counts over the group of one (id, name)\<close>
  "group_stats joined gid gname =
     (let grp = filter (\<lambda>(s, sc). sh_id s = gid \<and> sh_name s = gname) joined
      in \<lparr>sold = count_status ''sold'' grp,
          available = count_status ''assigned'' grp,
          total = count_sc_id grp\<rparr>)"

definition get_shop_sales_stats :: "db \<Rightarrow> (string \<rightharpoonup> shop_sales)" where
  "get_shop_sales_stats d =
     (let joined = left_join (shops d) (simcards d);
          results =
            map (\<lambda>(gid, gname). (gid, group_stats joined gid gname))
              (remdups (map (\<lambda>(s, sc). (sh_id s, sh_name s)) joined))
      in fold (\<lambda>(gid, stats) shop_stats. shop_stats(gid \<mapsto> stats)) results Map.empty)"

subsection \<open>Runs of the API\<close>

text \<open>
  The calls that write, each with what it draws from the environment. The other
  endpoints (\<open>login\<close>, \<open>logout\<close>, the two lists, the statistics) only read.
\<close>

datatype api_call =
    CreateShop string timestamp ShopCreate
  | UpdateShop string ShopUpdate
  | DeleteShop string
  | CreateSimCard string timestamp string
  | UpdateSimCard string timestamp SimCardUpdate
  | DeleteSimCard string
  | AssignSimCards AssignSimCardsRequest
  | CheckStatus string timestamp
  | AutoCheck timestamp "string option list"

fun api_step :: "api_call \<Rightarrow> db \<Rightarrow> db" where
  "api_step (CreateShop shop_id now shop) d = fst (create_shop d shop_id now shop)"
| "api_step (UpdateShop shop_id shop) d = fst (update_shop d shop_id shop)"
| "api_step (DeleteShop shop_id) d = fst (delete_shop d shop_id)"
| "api_step (CreateSimCard simcard_id now code) d = fst (create_simcard d simcard_id now code)"
| "api_step (UpdateSimCard simcard_id now simcard) d =
     fst (update_simcard d simcard_id now simcard)"
| "api_step (DeleteSimCard simcard_id) d = fst (delete_simcard d simcard_id)"
| "api_step (AssignSimCards request) d = fst (assign_simcards_to_shop d request)"
| "api_step (CheckStatus simcard_id now) d = fst (check_simcard_status d simcard_id now)"
| "api_step (AutoCheck timestamp ids) d = fst (auto_check_simcards d timestamp ids)"

definition run :: "api_call list \<Rightarrow> db" where
  \<comment> \<open>the database after the calls, made in this order on the database of \<open>init_database\<close>\<close>
  "run calls = fold api_step calls init_database"

fun is_UpdateSimCard :: "api_call \<Rightarrow> bool" where
  "is_UpdateSimCard (UpdateSimCard simcard_id now simcard) = True"
| "is_UpdateSimCard _ = False"

definition status_invariant :: "db \<Rightarrow> bool" where
  "status_invariant d \<longleftrightarrow>
     (\<forall>c \<in> set (simcards d).
        (sc_status c = ''available'' \<longrightarrow> sc_assignedTo c = None) \<and>
        (sc_status c = ''assigned'' \<or> sc_status c = ''sold'' \<longrightarrow> sc_assignedTo c \<noteq> None))"

definition card_consistent :: "simcard \<Rightarrow> bool" where
  \<comment> \<open>the invariant, for one row\<close>
  "card_consistent c \<longleftrightarrow>
     (sc_status c = ''available'' \<longrightarrow> sc_assignedTo c = None) \<and>
     (sc_status c = ''assigned'' \<or> sc_status c = ''sold'' \<longrightarrow> sc_assignedTo c \<noteq> None)"

text \<open>
  A request body of \<open>PUT /simcards/{id}\<close> read against the row it is applied to. The handler
  writes \<open>status\<close> when the body has one and \<open>assignedTo\<close> when the body has one, and it
  cannot write NULL (a field that is \<open>None\<close> is skipped). The body keeps the row consistent
  when it has neither of the two fields, or when the status and the \<open>assignedTo\<close> that the
  row has after the \<open>UPDATE\<close> fit each other.
\<close>

definition update_keeps_card_consistent :: "simcard \<Rightarrow> SimCardUpdate \<Rightarrow> bool" where
  "update_keeps_card_consistent c su \<longleftrightarrow>
     (su_status su = None \<and> su_assignedTo su = None) \<or>
     (let status' = (case su_status su of None \<Rightarrow> sc_status c | Some v \<Rightarrow> v);
          assigned' = (su_assignedTo su \<noteq> None \<or> sc_assignedTo c \<noteq> None)
      in (status' = ''available'' \<longrightarrow> \<not> assigned') \<and>
         (status' = ''assigned'' \<or> status' = ''sold'' \<longrightarrow> assigned'))"

fun call_is_consistent :: "api_call \<Rightarrow> db \<Rightarrow> bool" where
  \<comment> \<open>a call of \<open>update_simcard\<close> for a row that exists has a body that keeps the row consistent\<close>
  "call_is_consistent (UpdateSimCard simcard_id now simcard) d =
     (case select_simcard d simcard_id of
        None \<Rightarrow> True
      | Some c \<Rightarrow> update_keeps_card_consistent c simcard)"
| "call_is_consistent _ d = True"

fun consistent_updates :: "api_call list \<Rightarrow> db \<Rightarrow> bool" where
  \<comment> \<open>every call of the list is consistent on the database it is made on\<close>
  "consistent_updates [] d = True"
| "consistent_updates (call # calls) d =
     (call_is_consistent call d \<and> consistent_updates calls (api_step call d))"

subsection \<open>Example data\<close>

definition shop_S :: shop where
  "shop_S = \<lparr>sh_id = ''shop-1'', sh_name = ''S'', sh_ownerName = ''Owner'',
     sh_ownerPhone = ''555'', sh_address = ''Main St'', sh_latitude = None,
     sh_longitude = None, sh_status = ''active'', sh_region = ''North'',
     sh_assignedSimCards = [], sh_addedDate = ''2024-01-01T09:00:00''\<rparr>"

definition shop_T :: shop where
  "shop_T = \<lparr>sh_id = ''shop-2'', sh_name = ''T'', sh_ownerName = ''Owner'',
     sh_ownerPhone = ''556'', sh_address = ''Side St'', sh_latitude = None,
     sh_longitude = None, sh_status = ''active'', sh_region = ''South'',
     sh_assignedSimCards = [], sh_addedDate = ''2024-01-01T09:30:00''\<rparr>"

definition card_A :: simcard where
  "card_A = \<lparr>sc_id = ''sim-a'', sc_code = ''C1'', sc_status = ''available'',
     sc_assignedTo = None, sc_assignedShopName = None,
     sc_addedDate = ''2024-01-01T10:00:00'', sc_saleDate = None, sc_lastChecked = None\<rparr>"

definition card_B :: simcard where
  "card_B = \<lparr>sc_id = ''sim-b'', sc_code = ''C2'', sc_status = ''assigned'',
     sc_assignedTo = Some ''shop-1'', sc_assignedShopName = Some ''S'',
     sc_addedDate = ''2024-01-01T10:05:00'', sc_saleDate = None, sc_lastChecked = None\<rparr>"

definition card_C :: simcard where
  "card_C = \<lparr>sc_id = ''sim-c'', sc_code = ''C3'', sc_status = ''available'',
     sc_assignedTo = None, sc_assignedShopName = None,
     sc_addedDate = ''2024-01-01T10:10:00'', sc_saleDate = None, sc_lastChecked = None\<rparr>"

definition example_db :: db where
  "example_db = \<lparr>shops = [shop_S, shop_T], simcards = [card_A, card_B, card_C]\<rparr>"

definition lost_calls :: "api_call list" where
  \<comment> \<open>a card is created, then \<open>PUT /simcards/sim-a\<close> with \<open>{"status": "lost"}\<close>\<close>
  "lost_calls =
     [CreateSimCard ''sim-a'' ''2024-01-01T10:00:00'' ''C1'',
      UpdateSimCard ''sim-a'' ''2024-01-02T10:00:00''
        \<lparr>su_code = None, su_status = Some ''lost'', su_assignedTo = None,
         su_assignedShopName = None\<rparr>]"

definition sold_unassigned_calls :: "api_call list" where
  \<comment> \<open>a card is created, then \<open>PUT /simcards/sim-a\<close> with \<open>{"status": "sold"}\<close>\<close>
  "sold_unassigned_calls =
     [CreateSimCard ''sim-a'' ''2024-01-01T10:00:00'' ''C1'',
      UpdateSimCard ''sim-a'' ''2024-01-02T10:00:00''
        \<lparr>su_code = None, su_status = Some ''sold'', su_assignedTo = None,
         su_assignedShopName = None\<rparr>]"

definition demo_calls :: "api_call list" where
  \<comment> \<open>a shop and two cards are created, then one card is assigned to the shop\<close>
  "demo_calls =
     [CreateShop ''shop-1'' ''2024-01-01T09:00:00''
        \<lparr>c_name = ''S'', c_ownerName = ''Owner'', c_ownerPhone = ''555'',
         c_address = ''Main St'', c_latitude = None, c_longitude = None,
         c_region = ''North''\<rparr>,
      CreateSimCard ''sim-a'' ''2024-01-01T10:00:00'' ''C1'',
      CreateSimCard ''sim-b'' ''2024-01-01T10:05:00'' ''C2'',
      AssignSimCards \<lparr>r_shopId = ''shop-1'', r_count = 1\<rparr>]"

definition sale_calls :: "api_call list" where
  \<comment> \<open>after \<open>demo_calls\<close> the assigned card is sold, and the other card gets a new code\<close>
  "sale_calls =
     demo_calls @
     [UpdateSimCard ''sim-a'' ''2024-01-02T10:00:00''
        \<lparr>su_code = None, su_status = Some ''sold'', su_assignedTo = None,
         su_assignedShopName = None\<rparr>,
      UpdateSimCard ''sim-b'' ''2024-01-02T11:00:00''
        \<lparr>su_code = Some ''C9'', su_status = None, su_assignedTo = None,
         su_assignedShopName = None\<rparr>]"

lemmas example_defs =
  example_db_def shop_S_def shop_T_def card_A_def card_B_def card_C_def

lemmas eval_defs = run_def init_database_def create_simcard_def update_simcard_def
  select_simcard_def select_shop_def fetchone_def simcard_update_fields_def sql_set_def
  create_shop_def assign_simcards_to_shop_def sql_limit_def fits_int64_def assign_one_def

section \<open>Properties\<close>

subsection \<open>Selecting rows\<close>

lemma fetchone_None_iff: "fetchone rows = None \<longleftrightarrow> rows = []"
  by (simp add: fetchone_def split: list.splits)

lemma fetchone_filter_None_iff:
  "fetchone (filter P rows) = None \<longleftrightarrow> (\<forall>r \<in> set rows. \<not> P r)"
  by (simp add: fetchone_None_iff filter_empty_conv)

lemma fetchone_filter_Some: "fetchone (filter P rows) = Some r \<Longrightarrow> r \<in> set rows \<and> P r"
proof -
  assume "fetchone (filter P rows) = Some r"
  then have "r \<in> set (filter P rows)"
    by (cases "filter P rows") (simp_all add: fetchone_def)
  then show ?thesis by simp
qed

lemma select_simcard_append_new:
  "simcard_id \<notin> sc_id ` set cs \<Longrightarrow> sc_id row = simcard_id \<Longrightarrow>
   select_simcard (d\<lparr>simcards := cs @ [row]\<rparr>) simcard_id = Some row"
proof -
  assume a: "simcard_id \<notin> sc_id ` set cs" and b: "sc_id row = simcard_id"
  from a have "filter (\<lambda>c. sc_id c = simcard_id) cs = []"
    by (auto simp: filter_empty_conv)
  with b show ?thesis by (simp add: select_simcard_def fetchone_def)
qed

subsection \<open>Deleting a shop\<close>

text \<open>
  C3: when the shop exists, \<open>delete_shop\<close> succeeds, no row of \<open>shops\<close> has the
  identifier afterwards, and every SimCard that had \<open>assignedTo\<close> equal to it (the card
  at the same place of the table) has status \<open>available\<close> and \<open>assignedTo\<close> and
  \<open>assignedShopName\<close> NULL; when the shop is absent, \<open>delete_shop\<close> raises the 404 and the
  database is the one it was.
\<close>

theorem delete_shop_cascade:
  "(select_shop d shop_id \<noteq> None \<longrightarrow>
      snd (delete_shop d shop_id) = Inr () \<and>
      (\<forall>s \<in> set (shops (fst (delete_shop d shop_id))). sh_id s \<noteq> shop_id) \<and>
      length (simcards (fst (delete_shop d shop_id))) = length (simcards d) \<and>
      (\<forall>i < length (simcards d).
         sc_assignedTo (simcards d ! i) = Some shop_id \<longrightarrow>
         sc_status (simcards (fst (delete_shop d shop_id)) ! i) = ''available'' \<and>
         sc_assignedTo (simcards (fst (delete_shop d shop_id)) ! i) = None \<and>
         sc_assignedShopName (simcards (fst (delete_shop d shop_id)) ! i) = None)) \<and>
   (select_shop d shop_id = None \<longrightarrow>
      delete_shop d shop_id = (d, Inl (HTTPException 404 ''Shop not found'')))"
  by (auto simp: delete_shop_def split: option.splits)

theorem delete_shop_cascade_witness:
  "select_shop example_db ''shop-1'' \<noteq> None \<and>
   delete_shop example_db ''shop-1'' =
     (\<lparr>shops = [shop_T],
       simcards = [card_A,
                   card_B\<lparr>sc_status := ''available'', sc_assignedTo := None,
                          sc_assignedShopName := None\<rparr>,
                   card_C]\<rparr>, Inr ()) \<and>
   (1::nat) < length (simcards example_db) \<and>
   sc_assignedTo (simcards example_db ! 1) = Some ''shop-1'' \<and>
   sc_status (simcards (fst (delete_shop example_db ''shop-1'')) ! 1) = ''available'' \<and>
   select_shop example_db ''shop-9'' = None \<and>
   delete_shop example_db ''shop-9'' = (example_db, Inl (HTTPException 404 ''Shop not found''))"
  using delete_shop_cascade [of example_db "''shop-1''"]
        delete_shop_cascade [of example_db "''shop-9''"]
  by (simp add: delete_shop_def select_shop_def fetchone_def example_defs)

subsection \<open>Checking a SimCard\<close>

text \<open>
  C7 (evaluation of the code): on a table holding one card that was never checked,
  \<open>check_simcard_status\<close> stores the time of the call in \<open>lastChecked\<close>, and the row it
  returns has \<open>lastChecked\<close> NULL: it is the row as it was before the stamp.
\<close>

theorem check_status_returns_stale_row:
  "check_simcard_status \<lparr>shops = [], simcards = [card_A]\<rparr> ''sim-a'' ''2024-01-02T10:00:00'' =
     (\<lparr>shops = [], simcards = [card_A\<lparr>sc_lastChecked := Some ''2024-01-02T10:00:00''\<rparr>]\<rparr>,
      Inr card_A) \<and>
   sc_lastChecked card_A = None"
  by (simp add: check_simcard_status_def select_simcard_def fetchone_def card_A_def)

subsection \<open>Creating a SimCard\<close>

text \<open>
  C8: when a SimCard with the code exists, \<open>create_simcard\<close> raises the 400 with the
  detail \<open>SimCard code already exists\<close> (the specification's Conflict) and the database is
  the one it was; when no SimCard has the code, and the identifier drawn from
  \<open>uuid4\<close> is not in the table either, it appends and returns a card with status
  \<open>available\<close> and \<open>assignedTo\<close>, \<open>assignedShopName\<close>, \<open>saleDate\<close> and \<open>lastChecked\<close> NULL.
\<close>

theorem create_simcard_conflict_or_fresh:
  "(code \<in> sc_code ` set (simcards d) \<longrightarrow>
      create_simcard d simcard_id now code =
        (d, Inl (HTTPException 400 ''SimCard code already exists''))) \<and>
   (code \<notin> sc_code ` set (simcards d) \<and> simcard_id \<notin> sc_id ` set (simcards d) \<longrightarrow>
      create_simcard d simcard_id now code =
        (d\<lparr>simcards := simcards d @
             [\<lparr>sc_id = simcard_id, sc_code = code, sc_status = ''available'',
               sc_assignedTo = None, sc_assignedShopName = None, sc_addedDate = now,
               sc_saleDate = None, sc_lastChecked = None\<rparr>]\<rparr>,
         Inr \<lparr>sc_id = simcard_id, sc_code = code, sc_status = ''available'',
               sc_assignedTo = None, sc_assignedShopName = None, sc_addedDate = now,
               sc_saleDate = None, sc_lastChecked = None\<rparr>))"
  by (simp add: create_simcard_def select_simcard_append_new)

theorem create_simcard_conflict_or_fresh_witness:
  "''C2'' \<in> sc_code ` set (simcards example_db) \<and>
   create_simcard example_db ''sim-d'' ''2024-01-03T08:00:00'' ''C2'' =
     (example_db, Inl (HTTPException 400 ''SimCard code already exists'')) \<and>
   ''C4'' \<notin> sc_code ` set (simcards example_db) \<and>
   ''sim-d'' \<notin> sc_id ` set (simcards example_db) \<and>
   snd (create_simcard example_db ''sim-d'' ''2024-01-03T08:00:00'' ''C4'') =
     Inr \<lparr>sc_id = ''sim-d'', sc_code = ''C4'', sc_status = ''available'',
          sc_assignedTo = None, sc_assignedShopName = None,
          sc_addedDate = ''2024-01-03T08:00:00'', sc_saleDate = None, sc_lastChecked = None\<rparr>"
  using create_simcard_conflict_or_fresh
          [of "''C2''" example_db "''sim-d''" "''2024-01-03T08:00:00''"]
        create_simcard_conflict_or_fresh
          [of "''C4''" example_db "''sim-d''" "''2024-01-03T08:00:00''"]
  by (simp add: example_defs)

subsection \<open>Global statistics\<close>

lemma count_by_status:
  "length cs =
     length (filter (\<lambda>c. sc_status c = ''available'') cs) +
     length (filter (\<lambda>c. sc_status c = ''assigned'') cs) +
     length (filter (\<lambda>c. sc_status c = ''sold'') cs) +
     length (filter (\<lambda>c. sc_status c \<noteq> ''available'' \<and> sc_status c \<noteq> ''assigned'' \<and>
                           sc_status c \<noteq> ''sold'') cs)"
  by (induction cs) auto

text \<open>
  C6 as stated fails: \<open>update_simcard\<close> stores any text as status, and after the two
  calls of \<open>lost_calls\<close> the one card of the table is counted in \<open>totalSimCards\<close> and in
  none of the three other counts.
\<close>

theorem statistics_total_counterexample:
  "totalSimCards (get_statistics (run lost_calls)) \<noteq>
     availableSimCards (get_statistics (run lost_calls)) +
     assignedSimCards (get_statistics (run lost_calls)) +
     soldSimCards (get_statistics (run lost_calls))"
  by (simp add: lost_calls_def eval_defs get_statistics_def)

text \<open>
  C6, amended: \<open>totalSimCards\<close> equals the sum of \<open>availableSimCards\<close>,
  \<open>assignedSimCards\<close> and \<open>soldSimCards\<close> exactly in the states where every SimCard's
  status is one of \<open>available\<close>, \<open>assigned\<close> and \<open>sold\<close>.
\<close>

theorem statistics_total_iff:
  "totalSimCards (get_statistics d) =
     availableSimCards (get_statistics d) + assignedSimCards (get_statistics d) +
     soldSimCards (get_statistics d)
   \<longleftrightarrow> (\<forall>c \<in> set (simcards d).
          sc_status c = ''available'' \<or> sc_status c = ''assigned'' \<or> sc_status c = ''sold'')"
proof -
  let ?other = "filter (\<lambda>c. sc_status c \<noteq> ''available'' \<and> sc_status c \<noteq> ''assigned'' \<and>
                           sc_status c \<noteq> ''sold'') (simcards d)"
  have "totalSimCards (get_statistics d) =
     availableSimCards (get_statistics d) + assignedSimCards (get_statistics d) +
     soldSimCards (get_statistics d) \<longleftrightarrow> length ?other = 0"
    using count_by_status [of "simcards d"] by (simp add: get_statistics_def)
  also have "\<dots> \<longleftrightarrow> (\<forall>c \<in> set (simcards d).
          sc_status c = ''available'' \<or> sc_status c = ''assigned'' \<or> sc_status c = ''sold'')"
    by (auto simp: filter_empty_conv)
  finally show ?thesis .
qed

theorem statistics_total_iff_witness:
  "map sc_status (simcards example_db) = [''available'', ''assigned'', ''available''] \<and>
   totalSimCards (get_statistics example_db) = 3 \<and>
   availableSimCards (get_statistics example_db) = 2 \<and>
   assignedSimCards (get_statistics example_db) = 1 \<and>
   soldSimCards (get_statistics example_db) = 0"
  using statistics_total_iff [of example_db]
  by (simp add: get_statistics_def example_defs)

subsection \<open>What the writing handlers do to the two tables\<close>

lemma assign_fold:
  "fold (\<lambda>simcard d'.
           d'\<lparr>simcards := map (\<lambda>c. if sc_id c = sc_id simcard then assign_one sid nm c else c)
                              (simcards d')\<rparr>) sel d
   = d\<lparr>simcards := map (\<lambda>c. if sc_id c \<in> sc_id ` set sel then assign_one sid nm c else c)
                        (simcards d)\<rparr>"
proof (induction sel arbitrary: d)
  case Nil
  show ?case by simp
next
  case (Cons a sel)
  have "map ((\<lambda>c. if sc_id c \<in> sc_id ` set sel then assign_one sid nm c else c) \<circ>
             (\<lambda>c. if sc_id c = sc_id a then assign_one sid nm c else c)) cs
        = map (\<lambda>c. if sc_id c \<in> sc_id ` set (a # sel) then assign_one sid nm c else c) cs" for cs
    by (rule map_cong) (auto simp: assign_one_def)
  then show ?case by (simp add: Cons.IH)
qed

lemma auto_check_loop_shops:
  "shops (fst (auto_check_loop t ids d rs)) = shops d"
  by (induction t ids d rs rule: auto_check_loop.induct) (auto split: option.splits)

lemma auto_check_loop_simcards:
  "\<exists>S. simcards (fst (auto_check_loop t ids d rs)) =
        map (\<lambda>c. if sc_id c \<in> S then c\<lparr>sc_lastChecked := Some t\<rparr> else c) (simcards d)"
proof (induction t ids d rs rule: auto_check_loop.induct)
  case (1 t d rs)
  have "simcards d = map (\<lambda>c. if sc_id c \<in> {} then c\<lparr>sc_lastChecked := Some t\<rparr> else c) (simcards d)"
    by simp
  then show ?case by (metis auto_check_loop.simps(1) fst_conv)
next
  case (2 t i rest d rs)
  show ?case
  proof (cases "case i of None \<Rightarrow> None | Some j \<Rightarrow> select_simcard d j")
    case None
    with 2(1) show ?thesis by simp
  next
    case (Some sc)
    then obtain j where j: "i = Some j" by (cases i) auto
    let ?d = "d\<lparr>simcards := map (\<lambda>c. if Some (sc_id c) = i
                                      then c\<lparr>sc_lastChecked := Some t\<rparr> else c) (simcards d)\<rparr>"
    from 2(2) [OF Some] obtain S where
      S: "simcards (fst (auto_check_loop t rest ?d
            (rs @ [\<lparr>cr_simCardId = sc_id sc, cr_status = sc_status sc,
               cr_isSold = (sc_status sc = ''sold''), cr_saleDate = sc_saleDate sc,
               cr_lastChecked = t\<rparr>]))) =
          map (\<lambda>c. if sc_id c \<in> S then c\<lparr>sc_lastChecked := Some t\<rparr> else c) (simcards ?d)"
      by blast
    have "map (\<lambda>c. if sc_id c \<in> S then c\<lparr>sc_lastChecked := Some t\<rparr> else c) (simcards ?d)
          = map (\<lambda>c. if sc_id c \<in> insert j S then c\<lparr>sc_lastChecked := Some t\<rparr> else c) (simcards d)"
      using j by (auto simp: o_def)
    with S Some show ?thesis by (auto simp del: map_map)
  qed
qed

lemma shops_assign:
  "shops (fst (assign_simcards_to_shop d r)) = shops d"
  by (simp add: assign_simcards_to_shop_def Let_def assign_fold split: option.splits)

lemma simcards_assign:
  "\<exists>S nm. simcards (fst (assign_simcards_to_shop d r)) =
       map (\<lambda>c. if sc_id c \<in> S then assign_one (r_shopId r) nm c else c) (simcards d)"
proof (cases "snd (assign_simcards_to_shop d r)")
  case (Inl e)
  then have "fst (assign_simcards_to_shop d r) = d"
    by (auto simp: assign_simcards_to_shop_def Let_def split: option.splits if_splits)
  moreover have "simcards d = map (\<lambda>c. if sc_id c \<in> {} then assign_one (r_shopId r) [] c else c) (simcards d)"
    by simp
  ultimately show ?thesis by metis
next
  case (Inr a)
  then show ?thesis
    by (auto simp: assign_simcards_to_shop_def Let_def assign_fold split: option.splits if_splits)
qed

lemma status_invariant_step:
  assumes "status_invariant d" and "\<not> is_UpdateSimCard call"
  shows "status_invariant (api_step call d)"
proof (cases call)
  case (CreateShop i t f)
  with assms show ?thesis
    by (auto simp: status_invariant_def create_shop_def Let_def split: option.splits)
next
  case (UpdateShop i f)
  with assms show ?thesis
    by (auto simp: status_invariant_def update_shop_def Let_def split: option.splits)
next
  case (DeleteShop i)
  with assms show ?thesis
    by (auto simp: status_invariant_def delete_shop_def split: option.splits)
next
  case (CreateSimCard i t c)
  with assms show ?thesis
    by (auto simp: status_invariant_def create_simcard_def Let_def split: option.splits)
next
  case (UpdateSimCard i t f)
  with assms show ?thesis by simp
next
  case (DeleteSimCard i)
  with assms show ?thesis
    by (auto simp: status_invariant_def delete_simcard_def split: option.splits)
next
  case (AssignSimCards r)
  obtain S nm where "simcards (fst (assign_simcards_to_shop d r)) =
       map (\<lambda>c. if sc_id c \<in> S then assign_one (r_shopId r) nm c else c) (simcards d)"
    using simcards_assign by blast
  with assms AssignSimCards show ?thesis
    by (auto simp: status_invariant_def assign_one_def)
next
  case (CheckStatus i t)
  with assms show ?thesis
    by (auto simp: status_invariant_def check_simcard_status_def split: option.splits)
next
  case (AutoCheck t ids)
  obtain S where "simcards (fst (auto_check_loop t ids d [])) =
        map (\<lambda>c. if sc_id c \<in> S then c\<lparr>sc_lastChecked := Some t\<rparr> else c) (simcards d)"
    using auto_check_loop_simcards by blast
  with assms AutoCheck show ?thesis
    by (auto simp: status_invariant_def auto_check_simcards_def split: prod.splits)
qed

subsection \<open>Partial updates, column by column\<close>

lemma sql_set_shop_update:
  "sql_set (shop_update_fields u) r =
     r\<lparr>sh_name := (case u_name u of None \<Rightarrow> sh_name r | Some v \<Rightarrow> v),
       sh_ownerName := (case u_ownerName u of None \<Rightarrow> sh_ownerName r | Some v \<Rightarrow> v),
       sh_ownerPhone := (case u_ownerPhone u of None \<Rightarrow> sh_ownerPhone r | Some v \<Rightarrow> v),
       sh_address := (case u_address u of None \<Rightarrow> sh_address r | Some v \<Rightarrow> v),
       sh_latitude := (case u_latitude u of None \<Rightarrow> sh_latitude r | Some v \<Rightarrow> Some v),
       sh_longitude := (case u_longitude u of None \<Rightarrow> sh_longitude r | Some v \<Rightarrow> Some v),
       sh_status := (case u_status u of None \<Rightarrow> sh_status r | Some v \<Rightarrow> v),
       sh_region := (case u_region u of None \<Rightarrow> sh_region r | Some v \<Rightarrow> v)\<rparr>"
  by (simp add: sql_set_def shop_update_fields_def split: option.split)

lemma sql_set_simcard_update:
  "sql_set (simcard_update_fields now u) r =
     r\<lparr>sc_code := (case su_code u of None \<Rightarrow> sc_code r | Some v \<Rightarrow> v),
       sc_status := (case su_status u of None \<Rightarrow> sc_status r | Some v \<Rightarrow> v),
       sc_saleDate := (if su_status u = Some ''sold'' then Some now else sc_saleDate r),
       sc_assignedTo := (case su_assignedTo u of None \<Rightarrow> sc_assignedTo r | Some v \<Rightarrow> Some v),
       sc_assignedShopName :=
         (case su_assignedShopName u of None \<Rightarrow> sc_assignedShopName r | Some v \<Rightarrow> Some v)\<rparr>"
  by (simp add: sql_set_def simcard_update_fields_def split: option.split)

lemma shop_update_fields_empty:
  "length (shop_update_fields u) = 0 \<longleftrightarrow>
     u_name u = None \<and> u_ownerName u = None \<and> u_ownerPhone u = None \<and> u_address u = None \<and>
     u_latitude u = None \<and> u_longitude u = None \<and> u_status u = None \<and> u_region u = None"
  by (simp add: shop_update_fields_def split: option.split)

lemma simcard_update_fields_empty:
  "length (simcard_update_fields now u) = 0 \<longleftrightarrow>
     su_code u = None \<and> su_status u = None \<and> su_assignedTo u = None \<and>
     su_assignedShopName u = None"
  by (simp add: simcard_update_fields_def split: option.split)

subsection \<open>The denormalised list of a shop\<close>

lemma shops_create_simcard: "shops (fst (create_simcard d i t c)) = shops d"
  by (simp add: create_simcard_def Let_def split: option.splits)

lemma shops_update_simcard: "shops (fst (update_simcard d i t u)) = shops d"
  by (simp add: update_simcard_def Let_def split: option.splits)

lemma shops_delete_simcard: "shops (fst (delete_simcard d i)) = shops d"
  by (simp add: delete_simcard_def split: option.splits)

lemma shops_check_simcard_status: "shops (fst (check_simcard_status d i t)) = shops d"
  by (simp add: check_simcard_status_def split: option.splits)

lemma shops_auto_check_simcards: "shops (fst (auto_check_simcards d t ids)) = shops d"
  using auto_check_loop_shops [of t ids d "[]"]
  by (cases "auto_check_loop t ids d []") (simp add: auto_check_simcards_def)

lemma shops_update_shop:
  "shops (fst (update_shop d i u)) = shops d \<or>
   shops (fst (update_shop d i u)) =
     map (\<lambda>r. if sh_id r = i then sql_set (shop_update_fields u) r else r) (shops d)"
  by (simp add: update_shop_def Let_def split: option.splits)

lemma shops_create_shop:
  "shops (fst (create_shop d i t f)) = shops d \<or>
   (\<exists>row. sh_assignedSimCards row = [] \<and> shops (fst (create_shop d i t f)) = shops d @ [row])"
  by (simp add: create_shop_def Let_def split: option.splits)

lemma shops_delete_shop:
  "set (shops (fst (delete_shop d i))) \<subseteq> set (shops d)"
  by (auto simp: delete_shop_def split: option.splits)

lemma updated_shop_row_origin:
  assumes "s \<in> set (map (\<lambda>r. if sh_id r = i then sql_set (shop_update_fields u) r else r) xs)"
  shows "\<exists>s0 \<in> set xs. sh_id s0 = sh_id s \<and> sh_assignedSimCards s0 = sh_assignedSimCards s"
proof -
  from assms obtain s0 where s0: "s0 \<in> set xs"
    and s: "s = (if sh_id s0 = i then sql_set (shop_update_fields u) s0 else s0)"
    by auto
  from s have "sh_id s0 = sh_id s \<and> sh_assignedSimCards s0 = sh_assignedSimCards s"
    by (simp add: sql_set_shop_update split: if_splits)
  with s0 show ?thesis by blast
qed

lemma api_step_assigned_list:
  assumes "s \<in> set (shops (api_step call d))"
  shows "sh_assignedSimCards s = [] \<or>
         (\<exists>s0 \<in> set (shops d). sh_id s0 = sh_id s \<and>
                                 sh_assignedSimCards s0 = sh_assignedSimCards s)"
proof (cases call)
  case (CreateShop i t f)
  with assms shops_create_shop [of d i t f] show ?thesis by auto
next
  case (UpdateShop i u)
  with assms shops_update_shop [of d i u] show ?thesis
    using updated_shop_row_origin [of s i u "shops d"] by auto
next
  case (DeleteShop i)
  with assms shops_delete_shop [of d i] show ?thesis by auto
next
  case (CreateSimCard i t c)
  with assms show ?thesis by (auto simp: shops_create_simcard)
next
  case (UpdateSimCard i t u)
  with assms show ?thesis by (auto simp: shops_update_simcard)
next
  case (DeleteSimCard i)
  with assms show ?thesis by (auto simp: shops_delete_simcard)
next
  case (AssignSimCards r)
  with assms show ?thesis by (auto simp: shops_assign)
next
  case (CheckStatus i t)
  with assms show ?thesis by (auto simp: shops_check_simcard_status)
next
  case (AutoCheck t ids)
  with assms show ?thesis by (auto simp: shops_auto_check_simcards)
qed

lemma run_assigned_list: "s \<in> set (shops (run calls)) \<Longrightarrow> sh_assignedSimCards s = []"
proof (induction calls arbitrary: s rule: rev_induct)
  case Nil
  then show ?case by (simp add: run_def init_database_def)
next
  case (snoc call calls)
  then have "s \<in> set (shops (api_step call (run calls)))" by (simp add: run_def)
  from api_step_assigned_list [OF this] snoc.IH show ?case by auto
qed

text \<open>
  C10: no handler writes \<open>assignedSimCards\<close> after \<open>create_shop\<close> has set it to the
  empty list, so in every state reached from the empty database every shop's
  \<open>assignedSimCards\<close> is empty, in the table and in what \<open>get_shops\<close> returns.
\<close>

theorem assigned_list_always_empty:
  "(\<forall>s \<in> set (shops (run calls)). sh_assignedSimCards s = []) \<and>
   (\<forall>s \<in> set (get_shops (run calls)). sh_assignedSimCards s = [])"
  by (simp add: get_shops_def run_assigned_list)


theorem assigned_list_always_empty_witness:
  "map sh_id (shops (run demo_calls)) = [''shop-1''] \<and>
   map sh_assignedSimCards (shops (run demo_calls)) = [[]] \<and>
   map sh_assignedSimCards (get_shops (run demo_calls)) = [[]]"
  using assigned_list_always_empty [of demo_calls]
  by (simp add: demo_calls_def eval_defs get_shops_def)

subsection \<open>Partial updates\<close>

lemma fetchone_filter_map_update:
  assumes "\<And>r. key (f r) = key r"
  shows "fetchone (filter (\<lambda>r. key r = i) (map (\<lambda>r. if key r = i then f r else r) xs)) =
         map_option f (fetchone (filter (\<lambda>r. key r = i) xs))"
  using assms by (induction xs) (simp_all add: fetchone_def)

lemma filter_others_map_update:
  assumes "\<And>r. key (f r) = key r"
  shows "filter (\<lambda>r. key r \<noteq> i) (map (\<lambda>r. if key r = i then f r else r) xs) =
         filter (\<lambda>r. key r \<noteq> i) xs"
  using assms by (induction xs) simp_all

lemma sh_id_sql_set [simp]: "sh_id (sql_set (shop_update_fields u) r) = sh_id r"
  by (simp add: sql_set_shop_update)

lemma sc_id_sql_set [simp]: "sc_id (sql_set (simcard_update_fields now u) r) = sc_id r"
  by (simp add: sql_set_simcard_update)

lemma update_shop_found:
  assumes "select_shop d shop_id = Some s"
  shows "update_shop d shop_id u =
          ((if 0 < length (shop_update_fields u)
            then d\<lparr>shops := map (\<lambda>r. if sh_id r = shop_id
                                       then sql_set (shop_update_fields u) r else r) (shops d)\<rparr>
            else d),
           Inr (if 0 < length (shop_update_fields u)
                then sql_set (shop_update_fields u) s else s))"
  using assms
  by (simp add: update_shop_def Let_def select_shop_def
        fetchone_filter_map_update [where key = sh_id])

lemma update_simcard_found:
  assumes "select_simcard d simcard_id = Some c"
  shows "update_simcard d simcard_id now u =
          (if 0 < length (simcard_update_fields now u) \<and>
              \<not> distinct (map sc_code
                   (map (\<lambda>r. if sc_id r = simcard_id
                             then sql_set (simcard_update_fields now u) r else r) (simcards d)))
           then (d, Inl (Unhandled IntegrityError))
           else ((if 0 < length (simcard_update_fields now u)
                  then d\<lparr>simcards := map (\<lambda>r. if sc_id r = simcard_id
                               then sql_set (simcard_update_fields now u) r else r) (simcards d)\<rparr>
                  else d),
                 Inr (if 0 < length (simcard_update_fields now u)
                      then sql_set (simcard_update_fields now u) c else c)))"
  using assms
  by (simp add: update_simcard_def Let_def select_simcard_def
        fetchone_filter_map_update [where key = sc_id] del: map_map)

lemma sql_set_shop_noop:
  "length (shop_update_fields u) = 0 \<Longrightarrow> sql_set (shop_update_fields u) r = r"
  by (simp add: sql_set_def)

lemma sql_set_simcard_noop:
  "length (simcard_update_fields now u) = 0 \<Longrightarrow> sql_set (simcard_update_fields now u) r = r"
  by (simp add: sql_set_def)

text \<open>
  C2 as stated fails for \<open>update_simcard\<close>: a request that holds only
  \<open>status = "sold"\<close> also changes \<open>saleDate\<close>, a column that no request can hold.
\<close>

theorem partial_update_counterexample:
  "select_simcard example_db ''sim-a'' = Some card_A \<and>
   sc_saleDate card_A = None \<and>
   snd (update_simcard example_db ''sim-a'' ''2024-01-02T10:00:00''
          \<lparr>su_code = None, su_status = Some ''sold'', su_assignedTo = None,
           su_assignedShopName = None\<rparr>) =
     Inr (card_A\<lparr>sc_status := ''sold'', sc_saleDate := Some ''2024-01-02T10:00:00''\<rparr>)"
  by (simp add: example_defs eval_defs)

text \<open>
  C2, amended: when the row exists, \<open>update_shop\<close> returns and stores the row with
  each column set from the request where the request holds it and kept where it does not
  (\<open>id\<close>, \<open>assignedSimCards\<close> and \<open>addedDate\<close> are always kept), and leaves the other
  rows and the other table alone; \<open>update_simcard\<close> does the same for \<open>code\<close>,
  \<open>status\<close>, \<open>assignedTo\<close> and \<open>assignedShopName\<close>, except that it also sets
  \<open>saleDate\<close> to the time of the call when the request's status is \<open>sold\<close>, and that it
  may fail on the uniqueness of \<open>code\<close>, changing nothing. With an empty payload both
  return the row as it is and the database is the one it was.
\<close>

theorem partial_update_frame:
  "(select_shop d shop_id = Some s \<longrightarrow>
      snd (update_shop d shop_id u) =
        Inr (s\<lparr>sh_name := (case u_name u of None \<Rightarrow> sh_name s | Some v \<Rightarrow> v),
               sh_ownerName := (case u_ownerName u of None \<Rightarrow> sh_ownerName s | Some v \<Rightarrow> v),
               sh_ownerPhone := (case u_ownerPhone u of None \<Rightarrow> sh_ownerPhone s | Some v \<Rightarrow> v),
               sh_address := (case u_address u of None \<Rightarrow> sh_address s | Some v \<Rightarrow> v),
               sh_latitude := (case u_latitude u of None \<Rightarrow> sh_latitude s | Some v \<Rightarrow> Some v),
               sh_longitude := (case u_longitude u of None \<Rightarrow> sh_longitude s | Some v \<Rightarrow> Some v),
               sh_status := (case u_status u of None \<Rightarrow> sh_status s | Some v \<Rightarrow> v),
               sh_region := (case u_region u of None \<Rightarrow> sh_region s | Some v \<Rightarrow> v)\<rparr>) \<and>
      select_shop (fst (update_shop d shop_id u)) shop_id =
        (case snd (update_shop d shop_id u) of Inl e \<Rightarrow> None | Inr s' \<Rightarrow> Some s') \<and>
      filter (\<lambda>r. sh_id r \<noteq> shop_id) (shops (fst (update_shop d shop_id u))) =
        filter (\<lambda>r. sh_id r \<noteq> shop_id) (shops d) \<and>
      simcards (fst (update_shop d shop_id u)) = simcards d \<and>
      (u_name u = None \<and> u_ownerName u = None \<and> u_ownerPhone u = None \<and>
       u_address u = None \<and> u_latitude u = None \<and> u_longitude u = None \<and>
       u_status u = None \<and> u_region u = None \<longrightarrow>
         update_shop d shop_id u = (d, Inr s))) \<and>
   (select_simcard d simcard_id = Some c \<longrightarrow>
      (update_simcard d simcard_id now su = (d, Inl (Unhandled IntegrityError)) \<or>
       snd (update_simcard d simcard_id now su) =
         Inr (c\<lparr>sc_code := (case su_code su of None \<Rightarrow> sc_code c | Some v \<Rightarrow> v),
                sc_status := (case su_status su of None \<Rightarrow> sc_status c | Some v \<Rightarrow> v),
                sc_saleDate := (if su_status su = Some ''sold'' then Some now else sc_saleDate c),
                sc_assignedTo :=
                  (case su_assignedTo su of None \<Rightarrow> sc_assignedTo c | Some v \<Rightarrow> Some v),
                sc_assignedShopName :=
                  (case su_assignedShopName su of None \<Rightarrow> sc_assignedShopName c
                   | Some v \<Rightarrow> Some v)\<rparr>) \<and>
       select_simcard (fst (update_simcard d simcard_id now su)) simcard_id =
         (case snd (update_simcard d simcard_id now su) of Inl e \<Rightarrow> None | Inr c' \<Rightarrow> Some c') \<and>
       filter (\<lambda>r. sc_id r \<noteq> simcard_id) (simcards (fst (update_simcard d simcard_id now su))) =
         filter (\<lambda>r. sc_id r \<noteq> simcard_id) (simcards d) \<and>
       shops (fst (update_simcard d simcard_id now su)) = shops d) \<and>
      (su_code su = None \<and> su_status su = None \<and> su_assignedTo su = None \<and>
       su_assignedShopName su = None \<longrightarrow>
         update_simcard d simcard_id now su = (d, Inr c)))"
proof (intro conjI impI)
  assume s: "select_shop d shop_id = Some s"
  note found = update_shop_found [OF s, of u]
  show "snd (update_shop d shop_id u) =
        Inr (s\<lparr>sh_name := (case u_name u of None \<Rightarrow> sh_name s | Some v \<Rightarrow> v),
               sh_ownerName := (case u_ownerName u of None \<Rightarrow> sh_ownerName s | Some v \<Rightarrow> v),
               sh_ownerPhone := (case u_ownerPhone u of None \<Rightarrow> sh_ownerPhone s | Some v \<Rightarrow> v),
               sh_address := (case u_address u of None \<Rightarrow> sh_address s | Some v \<Rightarrow> v),
               sh_latitude := (case u_latitude u of None \<Rightarrow> sh_latitude s | Some v \<Rightarrow> Some v),
               sh_longitude := (case u_longitude u of None \<Rightarrow> sh_longitude s | Some v \<Rightarrow> Some v),
               sh_status := (case u_status u of None \<Rightarrow> sh_status s | Some v \<Rightarrow> v),
               sh_region := (case u_region u of None \<Rightarrow> sh_region s | Some v \<Rightarrow> v)\<rparr>)"
    using sql_set_shop_noop [of u s]
    by (cases "0 < length (shop_update_fields u)")
       (simp_all add: found sql_set_shop_update [symmetric])
  show "select_shop (fst (update_shop d shop_id u)) shop_id =
        (case snd (update_shop d shop_id u) of Inl e \<Rightarrow> None | Inr s' \<Rightarrow> Some s')"
    using s by (simp add: found select_shop_def fetchone_filter_map_update [where key = sh_id])
  show "filter (\<lambda>r. sh_id r \<noteq> shop_id) (shops (fst (update_shop d shop_id u))) =
        filter (\<lambda>r. sh_id r \<noteq> shop_id) (shops d)"
    by (simp add: found filter_others_map_update [where key = sh_id])
  show "simcards (fst (update_shop d shop_id u)) = simcards d"
    by (simp add: found)
next
  assume s: "select_shop d shop_id = Some s"
    and "u_name u = None \<and> u_ownerName u = None \<and> u_ownerPhone u = None \<and>
       u_address u = None \<and> u_latitude u = None \<and> u_longitude u = None \<and>
       u_status u = None \<and> u_region u = None"
  then have "length (shop_update_fields u) = 0"
    using shop_update_fields_empty [of u] by simp
  then show "update_shop d shop_id u = (d, Inr s)"
    by (simp add: update_shop_found [OF s])
next
  assume c: "select_simcard d simcard_id = Some c"
  note found = update_simcard_found [OF c, of now su]
  let ?fields = "simcard_update_fields now su"
  let ?rows = "map (\<lambda>r. if sc_id r = simcard_id then sql_set ?fields r else r) (simcards d)"
  show "update_simcard d simcard_id now su = (d, Inl (Unhandled IntegrityError)) \<or>
       snd (update_simcard d simcard_id now su) =
         Inr (c\<lparr>sc_code := (case su_code su of None \<Rightarrow> sc_code c | Some v \<Rightarrow> v),
                sc_status := (case su_status su of None \<Rightarrow> sc_status c | Some v \<Rightarrow> v),
                sc_saleDate := (if su_status su = Some ''sold'' then Some now else sc_saleDate c),
                sc_assignedTo :=
                  (case su_assignedTo su of None \<Rightarrow> sc_assignedTo c | Some v \<Rightarrow> Some v),
                sc_assignedShopName :=
                  (case su_assignedShopName su of None \<Rightarrow> sc_assignedShopName c
                   | Some v \<Rightarrow> Some v)\<rparr>) \<and>
       select_simcard (fst (update_simcard d simcard_id now su)) simcard_id =
         (case snd (update_simcard d simcard_id now su) of Inl e \<Rightarrow> None | Inr c' \<Rightarrow> Some c') \<and>
       filter (\<lambda>r. sc_id r \<noteq> simcard_id) (simcards (fst (update_simcard d simcard_id now su))) =
         filter (\<lambda>r. sc_id r \<noteq> simcard_id) (simcards d) \<and>
       shops (fst (update_simcard d simcard_id now su)) = shops d"
  proof (cases "0 < length ?fields \<and> \<not> distinct (map sc_code ?rows)")
    case True
    then show ?thesis by (simp only: found if_True simp_thms)
  next
    case False
    then have upd: "update_simcard d simcard_id now su =
        ((if 0 < length ?fields then d\<lparr>simcards := ?rows\<rparr> else d),
         Inr (if 0 < length ?fields then sql_set ?fields c else c))"
      by (simp only: found if_False)
    have row: "(if 0 < length ?fields then sql_set ?fields c else c) = sql_set ?fields c"
      using sql_set_simcard_noop [of now su c] by (cases "0 < length ?fields") simp_all
    have "snd (update_simcard d simcard_id now su) = Inr (sql_set ?fields c)"
      by (simp only: upd row snd_conv)
    moreover have "select_simcard (fst (update_simcard d simcard_id now su)) simcard_id =
         (case snd (update_simcard d simcard_id now su) of Inl e \<Rightarrow> None | Inr c' \<Rightarrow> Some c')"
      using c by (simp add: upd select_simcard_def
                    fetchone_filter_map_update [where key = sc_id] del: map_map)
    moreover have "filter (\<lambda>r. sc_id r \<noteq> simcard_id)
          (simcards (fst (update_simcard d simcard_id now su))) =
         filter (\<lambda>r. sc_id r \<noteq> simcard_id) (simcards d)"
      by (simp add: upd filter_others_map_update [where key = sc_id] del: map_map)
    moreover have "shops (fst (update_simcard d simcard_id now su)) = shops d"
      by (simp add: upd)
    ultimately show ?thesis by (simp only: sql_set_simcard_update simp_thms)
  qed
next
  assume c: "select_simcard d simcard_id = Some c"
    and "su_code su = None \<and> su_status su = None \<and> su_assignedTo su = None \<and>
       su_assignedShopName su = None"
  then have "length (simcard_update_fields now su) = 0"
    using simcard_update_fields_empty [of now su] by simp
  then show "update_simcard d simcard_id now su = (d, Inr c)"
    by (simp add: update_simcard_found [OF c])
qed

theorem partial_update_frame_witness:
  "select_shop example_db ''shop-1'' = Some shop_S \<and>
   snd (update_shop example_db ''shop-1''
          \<lparr>u_name = Some ''S2'', u_ownerName = None, u_ownerPhone = None, u_address = None,
           u_latitude = None, u_longitude = None, u_status = None, u_region = None\<rparr>) =
     Inr (shop_S\<lparr>sh_name := ''S2''\<rparr>) \<and>
   update_shop example_db ''shop-1''
          \<lparr>u_name = None, u_ownerName = None, u_ownerPhone = None, u_address = None,
           u_latitude = None, u_longitude = None, u_status = None, u_region = None\<rparr> =
     (example_db, Inr shop_S) \<and>
   select_simcard example_db ''sim-a'' = Some card_A \<and>
   snd (update_simcard example_db ''sim-a'' ''2024-01-02T10:00:00''
          \<lparr>su_code = None, su_status = None, su_assignedTo = Some ''shop-2'',
           su_assignedShopName = None\<rparr>) =
     Inr (card_A\<lparr>sc_assignedTo := Some ''shop-2''\<rparr>) \<and>
   update_simcard example_db ''sim-a'' ''2024-01-02T10:00:00''
          \<lparr>su_code = None, su_status = None, su_assignedTo = None,
           su_assignedShopName = None\<rparr> = (example_db, Inr card_A)"
  using partial_update_frame [where d = example_db and shop_id = "''shop-1''" and s = shop_S
          and u = "\<lparr>u_name = Some ''S2'', u_ownerName = None, u_ownerPhone = None,
                    u_address = None, u_latitude = None, u_longitude = None, u_status = None,
                    u_region = None\<rparr>"
          and simcard_id = "''sim-a''" and c = card_A and now = "''2024-01-02T10:00:00''"
          and su = "\<lparr>su_code = None, su_status = None, su_assignedTo = Some ''shop-2'',
                     su_assignedShopName = None\<rparr>"]
        partial_update_frame [where d = example_db and shop_id = "''shop-1''" and s = shop_S
          and u = "\<lparr>u_name = None, u_ownerName = None, u_ownerPhone = None,
                    u_address = None, u_latitude = None, u_longitude = None, u_status = None,
                    u_region = None\<rparr>"
          and simcard_id = "''sim-a''" and c = card_A and now = "''2024-01-02T10:00:00''"
          and su = "\<lparr>su_code = None, su_status = None, su_assignedTo = None,
                     su_assignedShopName = None\<rparr>"]
  by (simp add: example_defs eval_defs update_shop_def shop_update_fields_def)

subsection \<open>Selling a SimCard\<close>

lemma distinct_codes_after_update:
  assumes "distinct (map sc_id xs)" and "distinct (map sc_code xs)"
    and "\<forall>r \<in> set xs. \<forall>r' \<in> set xs. sc_id r = i \<and> sc_id r' \<noteq> i \<longrightarrow> sc_code r' \<noteq> sc_code (f r)"
  shows "distinct (map sc_code (map (\<lambda>r. if sc_id r = i then f r else r) xs))"
  using assms
proof (induction xs)
  case Nil
  show ?case by simp
next
  case (Cons x xs)
  let ?g = "\<lambda>r. if sc_id r = i then f r else r"
  from Cons have IH: "distinct (map sc_code (map ?g xs))" by simp
  show ?case
  proof (cases "sc_id x = i")
    case True
    from Cons.prems(1) have "sc_id x \<notin> sc_id ` set xs" by simp
    with True have "\<forall>r \<in> set xs. sc_id r \<noteq> i" by (metis imageI)
    then have same: "map ?g xs = xs" by (simp add: map_idI)
    have "sc_code (f x) \<notin> sc_code ` set xs"
      using Cons.prems(3) True \<open>\<forall>r \<in> set xs. sc_id r \<noteq> i\<close> by auto
    with Cons.prems(2) True same show ?thesis by simp
  next
    case False
    have "sc_code x \<noteq> sc_code (?g r)" if "r \<in> set xs" for r
    proof (cases "sc_id r = i")
      case True
      with Cons.prems(3) False that show ?thesis by auto
    next
      case False
      with Cons.prems(2) that show ?thesis by auto
    qed
    then have nx: "sc_code x \<notin> set (map sc_code (map ?g xs))" by auto
    have "distinct (sc_code x # map sc_code (map ?g xs))"
      using nx IH by (simp only: distinct.simps simp_thms)
    moreover have "map sc_code (map ?g (x # xs)) = sc_code x # map sc_code (map ?g xs)"
      using False by simp
    ultimately show ?thesis by (simp only:)
  qed
qed

lemma select_simcard_SomeD:
  "select_simcard d i = Some c \<Longrightarrow> c \<in> set (simcards d) \<and> sc_id c = i"
  unfolding select_simcard_def by (drule fetchone_filter_Some) simp

text \<open>
  C4 as stated fails: a request with status \<open>sold\<close> whose \<open>code\<close> is the code of
  another card raises \<open>IntegrityError\<close> and stamps nothing; and \<open>saleDate\<close> is the
  reading of the local clock, which after a step back of that clock is earlier than
  \<open>addedDate\<close>.
\<close>

theorem sold_stamp_counterexample:
  "select_simcard example_db ''sim-a'' = Some card_A \<and>
   sc_saleDate card_A = None \<and>
   update_simcard example_db ''sim-a'' ''2024-01-02T10:00:00''
     \<lparr>su_code = Some ''C2'', su_status = Some ''sold'', su_assignedTo = None,
      su_assignedShopName = None\<rparr> = (example_db, Inl (Unhandled IntegrityError)) \<and>
   snd (update_simcard example_db ''sim-a'' ''2024-01-01T09:59:00''
          \<lparr>su_code = None, su_status = Some ''sold'', su_assignedTo = None,
           su_assignedShopName = None\<rparr>) =
     Inr (card_A\<lparr>sc_status := ''sold'', sc_saleDate := Some ''2024-01-01T09:59:00''\<rparr>) \<and>
   \<not> sc_addedDate card_A \<le> ''2024-01-01T09:59:00''"
  by (simp add: example_defs eval_defs)

text \<open>
  C4, amended: on a database that meets the schema's constraints, a request with status
  \<open>sold\<close> for an existing SimCard, whose \<open>code\<close> (if it holds one) is the code of no
  other card, succeeds and sets \<open>saleDate\<close> to the time of the call, whatever it was
  before; \<open>addedDate\<close> is kept, so \<open>saleDate\<close> is not NULL, and it is at least
  \<open>addedDate\<close> when the clock reads no earlier than \<open>addedDate\<close>.
\<close>

theorem sold_stamps_sale_date:
  assumes "db_constraints d"
    and "select_simcard d simcard_id = Some c"
    and "su_status su = Some ''sold''"
    and "\<forall>v. su_code su = Some v \<longrightarrow>
           (\<forall>r \<in> set (simcards d). sc_id r \<noteq> simcard_id \<longrightarrow> sc_code r \<noteq> v)"
  shows "\<exists>c'. snd (update_simcard d simcard_id now su) = Inr c' \<and>
              select_simcard (fst (update_simcard d simcard_id now su)) simcard_id = Some c' \<and>
              sc_status c' = ''sold'' \<and>
              sc_saleDate c' = Some now \<and>
              sc_addedDate c' = sc_addedDate c \<and>
              (sc_addedDate c \<le> now \<longrightarrow>
                 (\<exists>t. sc_saleDate c' = Some t \<and> sc_addedDate c' \<le> t))"
proof -
  let ?fields = "simcard_update_fields now su"
  let ?rows = "map (\<lambda>r. if sc_id r = simcard_id then sql_set ?fields r else r) (simcards d)"
  from assms(1) have ids: "distinct (map sc_id (simcards d))"
    and codes: "distinct (map sc_code (simcards d))" by (simp_all add: db_constraints_def)
  have code_of: "sc_code (sql_set ?fields r) = (case su_code su of None \<Rightarrow> sc_code r | Some v \<Rightarrow> v)"
    for r by (simp add: sql_set_simcard_update)
  have "sc_code r' \<noteq> sc_code (sql_set ?fields r)"
    if "r \<in> set (simcards d)" "r' \<in> set (simcards d)" "sc_id r = simcard_id" "sc_id r' \<noteq> simcard_id"
    for r r'
  proof (cases "su_code su")
    case None
    from that have "r \<noteq> r'" by auto
    with codes that have "sc_code r' \<noteq> sc_code r"
      by (auto simp: distinct_map inj_on_def)
    with None show ?thesis by (simp add: code_of)
  next
    case (Some v)
    with assms(4) that show ?thesis by (simp add: code_of)
  qed
  then have "distinct (map sc_code ?rows)"
    using distinct_codes_after_update [OF ids codes, of simcard_id "sql_set ?fields"] by blast
  then have *: "\<not> (0 < length ?fields \<and> \<not> distinct (map sc_code ?rows))" by simp
  have nonempty: "0 < length ?fields"
    using assms(3) by (simp add: simcard_update_fields_def)
  have snd_eq: "snd (update_simcard d simcard_id now su) = Inr (sql_set ?fields c)"
    and fst_eq: "fst (update_simcard d simcard_id now su) = d\<lparr>simcards := ?rows\<rparr>"
    using * nonempty by (simp_all only: update_simcard_found [OF assms(2)] if_False if_True
                           fst_conv snd_conv)
  have "select_simcard (d\<lparr>simcards := ?rows\<rparr>) simcard_id = Some (sql_set ?fields c)"
    using assms(2) by (simp add: select_simcard_def
                         fetchone_filter_map_update [where key = sc_id] del: map_map)
  with snd_eq fst_eq assms(3) show ?thesis
    by (simp add: sql_set_simcard_update)
qed

theorem sold_stamps_sale_date_witness:
  "db_constraints example_db \<and>
   select_simcard example_db ''sim-b'' = Some card_B \<and>
   sc_addedDate card_B \<le> ''2024-01-02T10:00:00'' \<and>
   snd (update_simcard example_db ''sim-b'' ''2024-01-02T10:00:00''
          \<lparr>su_code = None, su_status = Some ''sold'', su_assignedTo = None,
           su_assignedShopName = None\<rparr>) =
     Inr (card_B\<lparr>sc_status := ''sold'', sc_saleDate := Some ''2024-01-02T10:00:00''\<rparr>)"
  using sold_stamps_sale_date [of example_db "''sim-b''" card_B
          "\<lparr>su_code = None, su_status = Some ''sold'', su_assignedTo = None,
            su_assignedShopName = None\<rparr>" "''2024-01-02T10:00:00''"]
  by (simp add: db_constraints_def example_defs eval_defs)


subsection \<open>Sales statistics per shop\<close>

lemma left_join_rows: "left_join ss scs = concat (map (joined_rows scs) ss)"
  by (simp add: left_join_def)

lemma joined_rows_fst: "r \<in> set (joined_rows scs s) \<Longrightarrow> fst r = s"
  by (auto simp: joined_rows_def split: list.splits)

lemma joined_rows_nonempty: "joined_rows scs s \<noteq> []"
  by (simp add: joined_rows_def split: list.splits)

lemma count_status_joined_rows:
  "count_status st (joined_rows scs s) =
     length (filter (\<lambda>c. sc_assignedTo c = Some (sh_id s) \<and> sc_status c = st) scs)"
proof (cases "filter (\<lambda>sc. sc_assignedTo sc = Some (sh_id s)) scs")
  case Nil
  then have "filter (\<lambda>c. sc_assignedTo c = Some (sh_id s) \<and> sc_status c = st) scs = []"
    by (auto simp: filter_empty_conv)
  with Nil show ?thesis by (simp add: count_status_def joined_rows_def)
next
  case (Cons m ms)
  have "count_status st (joined_rows scs s) =
          length (filter (\<lambda>c. sc_status c = st) (filter (\<lambda>sc. sc_assignedTo sc = Some (sh_id s)) scs))"
    unfolding count_status_def joined_rows_def Cons
    by (simp add: filter_map o_def)
  then show ?thesis by (simp add: conj_commute)
qed

lemma count_sc_id_joined_rows:
  "count_sc_id (joined_rows scs s) =
     length (filter (\<lambda>c. sc_assignedTo c = Some (sh_id s)) scs)"
proof (cases "filter (\<lambda>sc. sc_assignedTo sc = Some (sh_id s)) scs")
  case Nil
  then show ?thesis by (simp add: count_sc_id_def joined_rows_def)
next
  case (Cons m ms)
  show ?thesis
    unfolding count_sc_id_def joined_rows_def Cons
    by (simp add: filter_map o_def)
qed

lemma group_of_other_shops:
  assumes "\<forall>s' \<in> set ss. sh_id s' \<noteq> i"
  shows "filter (\<lambda>(s', sc). sh_id s' = i \<and> sh_name s' = n) (left_join ss scs) = []"
  using assms joined_rows_fst by (fastforce simp: left_join_rows filter_empty_conv)

lemma group_of_shop:
  assumes "distinct (map sh_id ss)" and "s \<in> set ss"
  shows "filter (\<lambda>(s', sc). sh_id s' = sh_id s \<and> sh_name s' = sh_name s) (left_join ss scs) =
         joined_rows scs s"
  using assms
proof (induction ss)
  case Nil
  then show ?case by simp
next
  case (Cons a ss)
  let ?P = "\<lambda>(s', sc). sh_id s' = sh_id s \<and> sh_name s' = sh_name s"
  have split: "filter ?P (left_join (a # ss) scs) =
                 filter ?P (joined_rows scs a) @ filter ?P (left_join ss scs)"
    by (simp add: left_join_rows)
  show ?case
  proof (cases "a = s")
    case True
    have "filter ?P (joined_rows scs s) = joined_rows scs s"
      by (auto simp: filter_id_conv dest: joined_rows_fst)
    moreover have "filter ?P (left_join ss scs) = []"
    proof (rule group_of_other_shops)
      from Cons.prems(1) True have "sh_id s \<notin> sh_id ` set ss" by simp
      then show "\<forall>s' \<in> set ss. sh_id s' \<noteq> sh_id s" by (metis imageI)
    qed
    ultimately show ?thesis using True split by simp
  next
    case False
    with Cons.prems have s: "s \<in> set ss" by simp
    from Cons.prems(1) have "sh_id a \<notin> sh_id ` set ss" by simp
    with s have "sh_id a \<noteq> sh_id s" by (metis imageI)
    then have "filter ?P (joined_rows scs a) = []"
      by (auto simp: filter_empty_conv dest: joined_rows_fst)
    moreover from Cons.prems(1) have "distinct (map sh_id ss)" by simp
    ultimately show ?thesis using Cons.IH s split by simp
  qed
qed

lemma fold_dict_update:
  assumes "distinct (map fst kvs)"
  shows "fold (\<lambda>(k, v) m. m(k \<mapsto> v)) kvs m0 = m0 ++ map_of kvs"
  using assms
proof (induction kvs arbitrary: m0)
  case Nil
  show ?case by simp
next
  case (Cons kv kvs)
  obtain k v where kv: "kv = (k, v)" by (cases kv)
  from Cons.prems kv have notin: "k \<notin> fst ` set kvs" and d: "distinct (map fst kvs)" by simp_all
  from notin have "map_of kvs k = None" by (simp add: map_of_eq_None_iff)
  then have swap: "(m0(k \<mapsto> v)) ++ map_of kvs = m0 ++ (map_of kvs)(k \<mapsto> v)"
    by (auto simp: map_add_def fun_eq_iff split: option.splits)
  have "fold (\<lambda>(k, v) m. m(k \<mapsto> v)) (kv # kvs) m0 =
        fold (\<lambda>(k, v) m. m(k \<mapsto> v)) kvs (m0(k \<mapsto> v))"
    using kv by simp
  also have "\<dots> = (m0(k \<mapsto> v)) ++ map_of kvs" by (rule Cons.IH [OF d])
  also have "\<dots> = m0 ++ (map_of kvs)(k \<mapsto> v)" by (rule swap)
  also have "\<dots> = m0 ++ map_of (kv # kvs)" using kv by simp
  finally show ?case .
qed

lemma join_keys:
  "set (map (\<lambda>(s, sc). (sh_id s, sh_name s)) (left_join ss scs)) =
     (\<lambda>s. (sh_id s, sh_name s)) ` set ss"
proof -
  have "fst ` set (left_join ss scs) = set ss"
  proof
    show "fst ` set (left_join ss scs) \<subseteq> set ss"
      using joined_rows_fst by (fastforce simp: left_join_rows)
    show "set ss \<subseteq> fst ` set (left_join ss scs)"
    proof
      fix s assume s: "s \<in> set ss"
      from joined_rows_nonempty [of scs s] obtain r where r: "r \<in> set (joined_rows scs s)"
        by (cases "joined_rows scs s") auto
      with joined_rows_fst [OF r] s show "s \<in> fst ` set (left_join ss scs)"
        by (force simp: left_join_rows)
    qed
  qed
  moreover have "set (map (\<lambda>(s, sc). (sh_id s, sh_name s)) (left_join ss scs)) =
                 (\<lambda>s. (sh_id s, sh_name s)) ` fst ` set (left_join ss scs)"
    by (auto simp: image_image case_prod_unfold)
  ultimately show ?thesis by simp
qed

lemma map_of_map_keyed:
  "map_of (map (\<lambda>(k, v). (k, f k v)) xs) k = map_option (f k) (map_of xs k)"
  by (induction xs) auto

lemma map_fst_map_keyed: "map fst (map (\<lambda>(k, v). (k, f k v)) xs) = map fst xs"
  by (induction xs) auto

lemma shop_sales_lookup:
  assumes "distinct (map sh_id (shops d))"
  shows "get_shop_sales_stats d i =
           (if i \<in> sh_id ` set (shops d)
            then Some \<lparr>sold = length (filter (\<lambda>c. sc_assignedTo c = Some i \<and>
                                                 sc_status c = ''sold'') (simcards d)),
                       available = length (filter (\<lambda>c. sc_assignedTo c = Some i \<and>
                                                 sc_status c = ''assigned'') (simcards d)),
                       total = length (filter (\<lambda>c. sc_assignedTo c = Some i) (simcards d))\<rparr>
            else None)"
proof -
  define joined where "joined = left_join (shops d) (simcards d)"
  define keys where "keys = remdups (map (\<lambda>(s, sc). (sh_id s, sh_name s)) joined)"
  have keys: "set keys = (\<lambda>s. (sh_id s, sh_name s)) ` set (shops d)"
    using join_keys [of "shops d" "simcards d"] by (simp add: keys_def joined_def)
  have inj: "inj_on sh_id (set (shops d))"
    using assms by (simp add: distinct_map)
  have "inj_on fst (set keys)"
    unfolding keys using inj by (auto simp: inj_on_def)
  then have dk: "distinct (map fst keys)"
    by (simp add: distinct_map keys_def)
  then have dr: "distinct (map fst (map (\<lambda>(gid, gname). (gid, group_stats joined gid gname)) keys))"
    by (simp only: map_fst_map_keyed)
  have "get_shop_sales_stats d =
          fold (\<lambda>(gid, stats) shop_stats. shop_stats(gid \<mapsto> stats))
            (map (\<lambda>(gid, gname). (gid, group_stats joined gid gname)) keys) Map.empty"
    by (simp add: get_shop_sales_stats_def Let_def joined_def keys_def)
  also have "\<dots> = Map.empty ++ map_of (map (\<lambda>(gid, gname). (gid, group_stats joined gid gname)) keys)"
    by (rule fold_dict_update [OF dr])
  finally have stats: "get_shop_sales_stats d i =
       map_option (group_stats joined i) (map_of keys i)"
    by (simp add: map_of_map_keyed)
  show ?thesis
  proof (cases "i \<in> sh_id ` set (shops d)")
    case False
    have "fst ` set keys = sh_id ` set (shops d)"
      unfolding keys by (simp add: image_image)
    with False have "map_of keys i = None" by (simp add: map_of_eq_None_iff)
    with False stats show ?thesis by simp
  next
    case True
    then obtain s where s: "s \<in> set (shops d)" and i: "i = sh_id s" by auto
    from s keys have "(sh_id s, sh_name s) \<in> set keys" by blast
    with dk have "map_of keys (sh_id s) = Some (sh_name s)" by simp
    with stats i have "get_shop_sales_stats d i = Some (group_stats joined (sh_id s) (sh_name s))"
      by simp
    also have "group_stats joined (sh_id s) (sh_name s) =
                 \<lparr>sold = count_status ''sold'' (joined_rows (simcards d) s),
                  available = count_status ''assigned'' (joined_rows (simcards d) s),
                  total = count_sc_id (joined_rows (simcards d) s)\<rparr>"
      by (simp add: group_stats_def Let_def joined_def group_of_shop [OF assms s])
    finally show ?thesis
      using True i by (simp add: count_status_joined_rows count_sc_id_joined_rows)
  qed
qed

text \<open>
  C9: on a database that meets the primary key of \<open>shops\<close>, \<open>get_shop_sales_stats\<close>
  returns a dictionary whose keys are exactly the identifiers of the shops; the entry of
  a shop holds the number of SimCards assigned to it with status \<open>sold\<close>, with status
  \<open>assigned\<close>, and in all; for a shop that no SimCard is assigned to the three counts
  are zero.
\<close>

theorem shop_sales_stats_per_shop:
  assumes "distinct (map sh_id (shops d))"
  shows "dom (get_shop_sales_stats d) = sh_id ` set (shops d) \<and>
         (\<forall>s \<in> set (shops d).
            get_shop_sales_stats d (sh_id s) =
              Some \<lparr>sold = length (filter (\<lambda>c. sc_assignedTo c = Some (sh_id s) \<and>
                                               sc_status c = ''sold'') (simcards d)),
                    available = length (filter (\<lambda>c. sc_assignedTo c = Some (sh_id s) \<and>
                                               sc_status c = ''assigned'') (simcards d)),
                    total = length (filter (\<lambda>c. sc_assignedTo c = Some (sh_id s))
                                      (simcards d))\<rparr> \<and>
            ((\<forall>c \<in> set (simcards d). sc_assignedTo c \<noteq> Some (sh_id s)) \<longrightarrow>
               get_shop_sales_stats d (sh_id s) = Some \<lparr>sold = 0, available = 0, total = 0\<rparr>))"
proof (intro conjI ballI)
  show "dom (get_shop_sales_stats d) = sh_id ` set (shops d)"
    by (auto simp: shop_sales_lookup [OF assms] dom_def split: if_splits)
next
  fix s assume "s \<in> set (shops d)"
  then show "get_shop_sales_stats d (sh_id s) =
              Some \<lparr>sold = length (filter (\<lambda>c. sc_assignedTo c = Some (sh_id s) \<and>
                                               sc_status c = ''sold'') (simcards d)),
                    available = length (filter (\<lambda>c. sc_assignedTo c = Some (sh_id s) \<and>
                                               sc_status c = ''assigned'') (simcards d)),
                    total = length (filter (\<lambda>c. sc_assignedTo c = Some (sh_id s))
                                      (simcards d))\<rparr>"
    by (simp add: shop_sales_lookup [OF assms])
next
  fix s assume s: "s \<in> set (shops d)"
  show "(\<forall>c \<in> set (simcards d). sc_assignedTo c \<noteq> Some (sh_id s)) \<longrightarrow>
               get_shop_sales_stats d (sh_id s) = Some \<lparr>sold = 0, available = 0, total = 0\<rparr>"
  proof
    assume none: "\<forall>c \<in> set (simcards d). sc_assignedTo c \<noteq> Some (sh_id s)"
    then have "filter (\<lambda>c. sc_assignedTo c = Some (sh_id s)) (simcards d) = []"
      and "filter (\<lambda>c. sc_assignedTo c = Some (sh_id s) \<and> sc_status c = ''sold'') (simcards d) = []"
      and "filter (\<lambda>c. sc_assignedTo c = Some (sh_id s) \<and> sc_status c = ''assigned'') (simcards d) = []"
      by (simp_all add: filter_empty_conv)
    with s show "get_shop_sales_stats d (sh_id s) = Some \<lparr>sold = 0, available = 0, total = 0\<rparr>"
      by (simp add: shop_sales_lookup [OF assms])
  qed
qed

theorem shop_sales_stats_per_shop_witness:
  "distinct (map sh_id (shops example_db)) \<and>
   dom (get_shop_sales_stats example_db) = {''shop-1'', ''shop-2''} \<and>
   get_shop_sales_stats example_db ''shop-1'' = Some \<lparr>sold = 0, available = 1, total = 1\<rparr> \<and>
   map sc_assignedTo (simcards example_db) = [None, Some ''shop-1'', None] \<and>
   get_shop_sales_stats example_db ''shop-2'' = Some \<lparr>sold = 0, available = 0, total = 0\<rparr>"
  using shop_sales_stats_per_shop [of example_db]
  by (simp add: example_defs)


subsection \<open>Assigning SimCards to a shop\<close>

lemma filter_mem_take_filter:
  "distinct xs \<Longrightarrow> filter (\<lambda>c. c \<in> set (take k (filter P xs))) xs = take k (filter P xs)"
proof (induction xs arbitrary: k)
  case Nil
  show ?case by simp
next
  case (Cons x xs)
  then have x: "x \<notin> set xs" and d: "distinct xs" by simp_all
  show ?case
  proof (cases "P x")
    case False
    have "x \<notin> set (take k (filter P xs))"
      using x by (metis in_set_takeD filter_is_subset subsetD)
    with False show ?thesis by (simp add: Cons.IH [OF d])
  next
    case True
    show ?thesis
    proof (cases k)
      case 0
      then show ?thesis by simp
    next
      case (Suc j)
      have "filter (\<lambda>c. c = x \<or> c \<in> set (take j (filter P xs))) xs =
            filter (\<lambda>c. c \<in> set (take j (filter P xs))) xs"
        using x by (intro filter_cong) auto
      with True Suc show ?thesis by (simp add: Cons.IH [OF d])
    qed
  qed
qed

lemma count_changed_positions:
  assumes "distinct xs" and "\<forall>c \<in> set (take k (filter P xs)). g c \<noteq> c"
  shows "card {i. i < length xs \<and>
              map (\<lambda>c. if c \<in> set (take k (filter P xs)) then g c else c) xs ! i \<noteq> xs ! i} =
         length (take k (filter P xs))"
proof -
  let ?S = "set (take k (filter P xs))"
  have "{i. i < length xs \<and> map (\<lambda>c. if c \<in> ?S then g c else c) xs ! i \<noteq> xs ! i} =
        {i. i < length xs \<and> xs ! i \<in> ?S}"
    using assms(2) by (auto split: if_splits)
  then have "card {i. i < length xs \<and> map (\<lambda>c. if c \<in> ?S then g c else c) xs ! i \<noteq> xs ! i} =
        card {i. i < length xs \<and> xs ! i \<in> ?S}"
    by (simp only:)
  also have "\<dots> = length (filter (\<lambda>c. c \<in> ?S) xs)"
    by (rule length_filter_conv_card [symmetric])
  also have "\<dots> = length (take k (filter P xs))"
    by (simp only: filter_mem_take_filter [OF assms(1)])
  finally show ?thesis .
qed

text \<open>
  C1 as stated fails for counts that are not in the range of a stock: with a negative
  count the \<open>LIMIT\<close> is unbounded and the length check passes, so every available card is
  assigned; with a count of \<open>2 ^ 63\<close> or more, binding it raises \<open>OverflowError\<close>, which
  is not the 400.
\<close>

theorem assign_negative_or_huge_count_counterexample:
  "select_shop example_db ''shop-1'' = Some shop_S \<and>
   length (filter (\<lambda>c. sc_status c = ''available'') (simcards example_db)) = 2 \<and>
   assign_simcards_to_shop example_db \<lparr>r_shopId = ''shop-1'', r_count = - 1\<rparr> =
     (\<lparr>shops = [shop_S, shop_T],
       simcards = [card_A\<lparr>sc_status := ''assigned'', sc_assignedTo := Some ''shop-1'',
                          sc_assignedShopName := Some ''S''\<rparr>,
                   card_B,
                   card_C\<lparr>sc_status := ''assigned'', sc_assignedTo := Some ''shop-1'',
                          sc_assignedShopName := Some ''S''\<rparr>]\<rparr>,
      Inr [\<lparr>ac_id = ''sim-a'', ac_code = ''C1'', ac_status = ''assigned'',
            ac_assignedTo = ''shop-1'', ac_assignedShopName = ''S''\<rparr>,
           \<lparr>ac_id = ''sim-c'', ac_code = ''C3'', ac_status = ''assigned'',
            ac_assignedTo = ''shop-1'', ac_assignedShopName = ''S''\<rparr>]) \<and>
   assign_simcards_to_shop example_db \<lparr>r_shopId = ''shop-1'', r_count = 2 ^ 63\<rparr> =
     (example_db, Inl (Unhandled OverflowError))"
  by (simp add: example_defs eval_defs)

text \<open>
  C1, amended: on a table with distinct identifiers, for a shop that exists and a count
  \<open>n\<close> with \<open>0 \<le> n < 2 ^ 63\<close>: when at least \<open>n\<close> SimCards are available, the call
  succeeds, returns \<open>n\<close> cards, and exactly \<open>n\<close> rows of \<open>simcards\<close> change, each of
  them available before and afterwards the same row with status \<open>assigned\<close>,
  \<open>assignedTo\<close> the shop's identifier and \<open>assignedShopName\<close> the shop's name as read
  at the start of the call, while \<open>shops\<close> is untouched; when fewer than \<open>n\<close> are available,
  it raises the 400 with the detail \<open>Only k simcards available\<close> and the database is
  the one it was.
\<close>

theorem assign_exactly_n_or_nothing:
  assumes "distinct (map sc_id (simcards d))"
    and "select_shop d (r_shopId request) = Some shop"
    and "0 \<le> r_count request" and "r_count request < 2 ^ 63"
  shows
   "(r_count request \<le> int (length (filter (\<lambda>c. sc_status c = ''available'') (simcards d))) \<longrightarrow>
       (\<exists>cards. snd (assign_simcards_to_shop d request) = Inr cards \<and>
                length cards = nat (r_count request)) \<and>
       shops (fst (assign_simcards_to_shop d request)) = shops d \<and>
       length (simcards (fst (assign_simcards_to_shop d request))) = length (simcards d) \<and>
       card {i. i < length (simcards d) \<and>
                simcards (fst (assign_simcards_to_shop d request)) ! i \<noteq> simcards d ! i} =
         nat (r_count request) \<and>
       (\<forall>i < length (simcards d).
          simcards (fst (assign_simcards_to_shop d request)) ! i \<noteq> simcards d ! i \<longrightarrow>
          sc_status (simcards d ! i) = ''available'' \<and>
          simcards (fst (assign_simcards_to_shop d request)) ! i =
            (simcards d ! i)\<lparr>sc_status := ''assigned'', sc_assignedTo := Some (r_shopId request),
                              sc_assignedShopName := Some (sh_name shop)\<rparr>)) \<and>
    (int (length (filter (\<lambda>c. sc_status c = ''available'') (simcards d))) < r_count request \<longrightarrow>
       assign_simcards_to_shop d request =
         (d, Inl (HTTPException 400
               (''Only '' @
                str_nat (length (filter (\<lambda>c. sc_status c = ''available'') (simcards d))) @
                '' simcards available''))))"
proof (intro conjI impI)
  let ?avail = "filter (\<lambda>c. sc_status c = ''available'') (simcards d)"
  let ?n = "r_count request"
  let ?sel = "take (nat ?n) ?avail"
  let ?g = "assign_one (r_shopId request) (sh_name shop)"
  have fits: "fits_int64 ?n" using assms(3,4) by (simp add: fits_int64_def)
  have lim: "sql_limit ?n ?avail = ?sel" using assms(3) by (simp add: sql_limit_def)
  {
    assume short: "int (length ?avail) < ?n"
    then have "?sel = ?avail" by simp
    with short show "assign_simcards_to_shop d request =
         (d, Inl (HTTPException 400 (''Only '' @ str_nat (length ?avail) @ '' simcards available'')))"
      by (simp add: assign_simcards_to_shop_def assms(2) fits lim)
  }
  assume enough: "?n \<le> int (length ?avail)"
  then have len: "length ?sel = nat ?n" by simp
  then have ok: "\<not> int (length ?sel) < ?n" using assms(3) by simp
  have res: "assign_simcards_to_shop d request =
      (d\<lparr>simcards := map (\<lambda>c. if sc_id c \<in> sc_id ` set ?sel then ?g c else c) (simcards d)\<rparr>,
       Inr (map (\<lambda>simcard. \<lparr>ac_id = sc_id simcard, ac_code = sc_code simcard,
                             ac_status = ''assigned'', ac_assignedTo = r_shopId request,
                             ac_assignedShopName = sh_name shop\<rparr>) ?sel))"
    using ok by (simp add: assign_simcards_to_shop_def assms(2) fits lim assign_fold Let_def)
  have inj: "inj_on sc_id (set (simcards d))" and dist: "distinct (simcards d)"
    using assms(1) by (simp_all add: distinct_map)
  have sub: "set ?sel \<subseteq> set (simcards d)"
    by (meson filter_is_subset set_take_subset subset_trans)
  have mem: "sc_id c \<in> sc_id ` set ?sel \<longleftrightarrow> c \<in> set ?sel" if "c \<in> set (simcards d)" for c
    using inj sub that by (auto simp: inj_on_def)
  have rows: "map (\<lambda>c. if sc_id c \<in> sc_id ` set ?sel then ?g c else c) (simcards d) =
              map (\<lambda>c. if c \<in> set ?sel then ?g c else c) (simcards d)"
    by (rule map_cong) (simp_all add: mem)
  have avail: "sc_status c = ''available''" if "c \<in> set ?sel" for c
    using that by (auto dest: in_set_takeD)
  have changed: "\<forall>c \<in> set ?sel. ?g c \<noteq> c"
  proof
    fix c assume "c \<in> set ?sel"
    then have a: "sc_status c = ''available''" by (rule avail)
    show "?g c \<noteq> c"
    proof
      assume "?g c = c"
      then have "sc_status (?g c) = sc_status c" by simp
      with a show False by (simp add: assign_one_def)
    qed
  qed
  show "(\<exists>cards. snd (assign_simcards_to_shop d request) = Inr cards \<and> length cards = nat ?n)"
    using len by (simp add: res)
  show "shops (fst (assign_simcards_to_shop d request)) = shops d"
    by (simp add: res)
  show "length (simcards (fst (assign_simcards_to_shop d request))) = length (simcards d)"
    by (simp add: res)
  show "card {i. i < length (simcards d) \<and>
                simcards (fst (assign_simcards_to_shop d request)) ! i \<noteq> simcards d ! i} = nat ?n"
    using count_changed_positions [OF dist changed] len by (simp add: res rows)
  show "\<forall>i < length (simcards d).
          simcards (fst (assign_simcards_to_shop d request)) ! i \<noteq> simcards d ! i \<longrightarrow>
          sc_status (simcards d ! i) = ''available'' \<and>
          simcards (fst (assign_simcards_to_shop d request)) ! i =
            (simcards d ! i)\<lparr>sc_status := ''assigned'', sc_assignedTo := Some (r_shopId request),
                              sc_assignedShopName := Some (sh_name shop)\<rparr>"
  proof (intro allI impI)
    fix i assume i: "i < length (simcards d)"
      and neq: "simcards (fst (assign_simcards_to_shop d request)) ! i \<noteq> simcards d ! i"
    from i neq have "simcards d ! i \<in> set ?sel"
      by (simp add: res rows split: if_splits)
    with i avail [of "simcards d ! i"]
    show "sc_status (simcards d ! i) = ''available'' \<and>
          simcards (fst (assign_simcards_to_shop d request)) ! i =
            (simcards d ! i)\<lparr>sc_status := ''assigned'', sc_assignedTo := Some (r_shopId request),
                              sc_assignedShopName := Some (sh_name shop)\<rparr>"
      by (simp add: res rows assign_one_def)
  qed
qed

theorem assign_exactly_n_or_nothing_witness:
  "distinct (map sc_id (simcards example_db)) \<and>
   select_shop example_db ''shop-1'' = Some shop_S \<and>
   length (filter (\<lambda>c. sc_status c = ''available'') (simcards example_db)) = 2 \<and>
   assign_simcards_to_shop example_db \<lparr>r_shopId = ''shop-1'', r_count = 1\<rparr> =
     (\<lparr>shops = [shop_S, shop_T],
       simcards = [card_A\<lparr>sc_status := ''assigned'', sc_assignedTo := Some ''shop-1'',
                          sc_assignedShopName := Some ''S''\<rparr>,
                   card_B, card_C]\<rparr>,
      Inr [\<lparr>ac_id = ''sim-a'', ac_code = ''C1'', ac_status = ''assigned'',
            ac_assignedTo = ''shop-1'', ac_assignedShopName = ''S''\<rparr>]) \<and>
   assign_simcards_to_shop example_db \<lparr>r_shopId = ''shop-1'', r_count = 5\<rparr> =
     (example_db, Inl (HTTPException 400 ''Only 2 simcards available''))"
  using assign_exactly_n_or_nothing [of example_db "\<lparr>r_shopId = ''shop-1'', r_count = 1\<rparr>" shop_S]
        assign_exactly_n_or_nothing [of example_db "\<lparr>r_shopId = ''shop-1'', r_count = 5\<rparr>" shop_S]
  by (simp add: example_defs eval_defs str_nat.simps)


subsection \<open>The schema's constraints in every reachable state\<close>

text \<open>
  The hypotheses on distinct identifiers and codes used above are no restriction: every
  writing handler keeps \<open>db_constraints\<close>, so it holds after every run of the API.
\<close>

lemma keys_kept_by_update:
  assumes "\<And>r. key (f r) = key r"
  shows "map key (map (\<lambda>r. if P r then f r else r) xs) = map key xs"
  using assms by (induction xs) simp_all

lemma db_constraints_simcards_map:
  assumes "db_constraints d" and "shops d' = shops d"
    and "simcards d' = map (\<lambda>c. if P c then f c else c) (simcards d)"
    and "\<And>c. sc_id (f c) = sc_id c" and "\<And>c. sc_code (f c) = sc_code c"
  shows "db_constraints d'"
  using assms(1,2)
  by (simp add: db_constraints_def assms(3) keys_kept_by_update [of sc_id f, OF assms(4)]
        keys_kept_by_update [of sc_code f, OF assms(5)] del: map_map)

lemma db_constraints_step:
  assumes "db_constraints d"
  shows "db_constraints (api_step call d)"
proof (cases call)
  case (CreateShop i t f)
  with assms show ?thesis
    by (auto simp: db_constraints_def create_shop_def Let_def split: option.splits)
next
  case (UpdateShop i u)
  have "map sh_id (map (\<lambda>r. if sh_id r = i then sql_set (shop_update_fields u) r else r)
                      (shops d)) = map sh_id (shops d)"
    by (rule keys_kept_by_update) simp
  with assms UpdateShop shops_update_shop [of d i u] show ?thesis
    by (auto simp: db_constraints_def update_shop_def Let_def simp del: map_map
             split: option.splits if_splits)
next
  case (DeleteShop i)
  have "db_constraints (d\<lparr>shops := filter (\<lambda>s. sh_id s \<noteq> i) (shops d)\<rparr>)"
    using assms by (simp add: db_constraints_def distinct_map_filter)
  then have "db_constraints
      (d\<lparr>shops := filter (\<lambda>s. sh_id s \<noteq> i) (shops d),
         simcards := map (\<lambda>c. if sc_assignedTo c = Some i
                              then c\<lparr>sc_status := ''available'', sc_assignedTo := None,
                                     sc_assignedShopName := None\<rparr>
                              else c) (simcards d)\<rparr>)"
    by (rule db_constraints_simcards_map
          [where P = "\<lambda>c. sc_assignedTo c = Some i"
             and f = "\<lambda>c. c\<lparr>sc_status := ''available'', sc_assignedTo := None,
                              sc_assignedShopName := None\<rparr>"]) simp_all
  with assms DeleteShop show ?thesis
    by (simp add: delete_shop_def split: option.splits)
next
  case (CreateSimCard i t c)
  with assms show ?thesis
    by (auto simp: db_constraints_def create_simcard_def Let_def split: option.splits)
next
  case (UpdateSimCard i t u)
  let ?rows = "map (\<lambda>r. if sc_id r = i then sql_set (simcard_update_fields t u) r else r)
                 (simcards d)"
  have ids: "map sc_id ?rows = map sc_id (simcards d)"
    by (rule keys_kept_by_update) simp
  have "fst (update_simcard d i t u) = d \<or>
        fst (update_simcard d i t u) = d\<lparr>simcards := ?rows\<rparr> \<and> distinct (map sc_code ?rows)"
    by (auto simp: update_simcard_def Let_def simp del: map_map split: option.splits)
  with assms ids UpdateSimCard show ?thesis
    by (auto simp: db_constraints_def simp del: map_map)
next
  case (DeleteSimCard i)
  with assms show ?thesis
    by (auto simp: db_constraints_def delete_simcard_def distinct_map_filter split: option.splits)
next
  case (AssignSimCards r)
  obtain S nm where "simcards (fst (assign_simcards_to_shop d r)) =
       map (\<lambda>c. if sc_id c \<in> S then assign_one (r_shopId r) nm c else c) (simcards d)"
    using simcards_assign by blast
  with assms have "db_constraints (fst (assign_simcards_to_shop d r))"
    by (rule db_constraints_simcards_map [OF _ shops_assign]) (simp_all add: assign_one_def)
  with AssignSimCards show ?thesis by simp
next
  case (CheckStatus i t)
  have "db_constraints (d\<lparr>simcards := map (\<lambda>c. if sc_id c = i then c\<lparr>sc_lastChecked := Some t\<rparr>
                                                else c) (simcards d)\<rparr>)"
    using assms
    by (rule db_constraints_simcards_map
          [where P = "\<lambda>c. sc_id c = i" and f = "\<lambda>c. c\<lparr>sc_lastChecked := Some t\<rparr>"])
       simp_all
  with assms CheckStatus show ?thesis
    by (simp add: check_simcard_status_def split: option.splits)
next
  case (AutoCheck t ids)
  obtain S where S: "simcards (fst (auto_check_loop t ids d [])) =
        map (\<lambda>c. if sc_id c \<in> S then c\<lparr>sc_lastChecked := Some t\<rparr> else c) (simcards d)"
    using auto_check_loop_simcards by blast
  have "db_constraints (fst (auto_check_loop t ids d []))"
    using assms auto_check_loop_shops S by (rule db_constraints_simcards_map) simp_all
  with AutoCheck show ?thesis
    by (cases "auto_check_loop t ids d []") (simp add: auto_check_simcards_def)
qed

lemma run_db_constraints: "db_constraints (run calls)"
proof (induction calls rule: rev_induct)
  case Nil
  show ?case by (simp add: run_def init_database_def db_constraints_def)
next
  case (snoc call calls)
  then have "db_constraints (api_step call (run calls))" by (rule db_constraints_step)
  then show ?case by (simp add: run_def)
qed

subsection \<open>The status invariant\<close>

text \<open>
  What \<open>update_simcard\<close> leaves in the two columns of the row it updates, and when the row is
  consistent afterwards.
\<close>

lemma status_invariant_iff:
  "status_invariant d \<longleftrightarrow> (\<forall>c \<in> set (simcards d). card_consistent c)"
  by (simp add: status_invariant_def card_consistent_def)

lemma merged_status:
  "sc_status (sql_set (simcard_update_fields t su) c) =
     (case su_status su of None \<Rightarrow> sc_status c | Some v \<Rightarrow> v)"
  by (simp add: sql_set_simcard_update)

lemma merged_assigned:
  "(sc_assignedTo (sql_set (simcard_update_fields t su) c) = None) =
     (su_assignedTo su = None \<and> sc_assignedTo c = None)"
  by (cases "su_assignedTo su") (simp_all add: sql_set_simcard_update)

lemma keeps_iff_merged:
  "update_keeps_card_consistent c su \<longleftrightarrow>
     (su_status su = None \<and> su_assignedTo su = None) \<or>
     card_consistent (sql_set (simcard_update_fields t su) c)"
proof -
  define st where "st = (case su_status su of None \<Rightarrow> sc_status c | Some v \<Rightarrow> v)"
  define un where "un \<longleftrightarrow> su_assignedTo su = None \<and> sc_assignedTo c = None"
  have a: "(su_assignedTo su \<noteq> None \<or> sc_assignedTo c \<noteq> None) = (\<not> un)"
    by (simp add: un_def)
  have b: "(sc_assignedTo (sql_set (simcard_update_fields t su) c) = None) = un"
    by (simp only: merged_assigned un_def)
  have c: "sc_status (sql_set (simcard_update_fields t su) c) = st"
    by (simp only: merged_status st_def)
  show ?thesis
    by (simp only: update_keeps_card_consistent_def card_consistent_def Let_def
          a b c st_def [symmetric] not_not)
qed

lemma merged_noop:
  assumes "su_status su = None" and "su_assignedTo su = None"
  shows "card_consistent (sql_set (simcard_update_fields t su) c) = card_consistent c"
  using assms by (simp only: card_consistent_def merged_status merged_assigned option.case simp_thms)

lemma status_invariant_update_step:
  assumes inv: "status_invariant d" and ids: "distinct (map sc_id (simcards d))"
    and ok: "call_is_consistent (UpdateSimCard i t su) d"
  shows "status_invariant (fst (update_simcard d i t su))"
proof (cases "select_simcard d i")
  case None
  then show ?thesis using inv by (simp add: update_simcard_def)
next
  case (Some c)
  let ?F = "simcard_update_fields t su"
  let ?rows = "map (\<lambda>r. if sc_id r = i then sql_set ?F r else r) (simcards d)"
  from select_simcard_SomeD [OF Some] have c: "c \<in> set (simcards d)" "sc_id c = i" by simp_all
  from ids have inj: "inj_on sc_id (set (simcards d))" by (simp add: distinct_map)
  from ok Some have keeps: "update_keeps_card_consistent c su" by simp
  have c_ok: "card_consistent c"
    using inv c(1) by (simp only: status_invariant_iff)
  have merged: "card_consistent (sql_set ?F c)"
  proof (cases "su_status su = None \<and> su_assignedTo su = None")
    case True
    with c_ok show ?thesis by (simp only: merged_noop)
  next
    case False
    with keeps show ?thesis by (simp only: keeps_iff_merged [of c su t] simp_thms)
  qed
  have rows_inv: "status_invariant (d\<lparr>simcards := ?rows\<rparr>)"
    unfolding status_invariant_iff
  proof
    fix r' assume "r' \<in> set (simcards (d\<lparr>simcards := ?rows\<rparr>))"
    then obtain r where r: "r \<in> set (simcards d)"
      and r': "r' = (if sc_id r = i then sql_set ?F r else r)" by auto
    show "card_consistent r'"
    proof (cases "sc_id r = i")
      case True
      with inj r c have "r = c" by (auto simp: inj_on_def)
      with True r' merged show ?thesis by simp
    next
      case False
      with r' have "r' = r" by simp
      with inv r show ?thesis by (simp only: status_invariant_iff)
    qed
  qed
  have "fst (update_simcard d i t su) = d \<or> fst (update_simcard d i t su) = d\<lparr>simcards := ?rows\<rparr>"
    by (simp add: update_simcard_found [OF Some])
  with inv rows_inv show ?thesis by auto
qed

lemma status_invariant_consistent_step:
  assumes "status_invariant d" and "db_constraints d" and "call_is_consistent call d"
  shows "status_invariant (api_step call d)"
proof (cases "is_UpdateSimCard call")
  case False
  with assms(1) show ?thesis by (rule status_invariant_step)
next
  case True
  then obtain i t su where call: "call = UpdateSimCard i t su" by (cases call) simp_all
  from assms(2) have "distinct (map sc_id (simcards d))" by (simp add: db_constraints_def)
  with assms(1,3) call show ?thesis by (simp add: status_invariant_update_step)
qed

lemma status_invariant_fold:
  assumes "status_invariant d" and "db_constraints d" and "consistent_updates calls d"
  shows "status_invariant (fold api_step calls d)"
  using assms
proof (induction calls arbitrary: d)
  case Nil
  then show ?case by simp
next
  case (Cons call calls)
  from Cons.prems have "status_invariant (api_step call d)"
    by (simp add: status_invariant_consistent_step)
  moreover from Cons.prems(2) have "db_constraints (api_step call d)" by (rule db_constraints_step)
  moreover from Cons.prems(3) have "consistent_updates calls (api_step call d)" by simp
  ultimately show ?case using Cons.IH by simp
qed

lemma update_breaks_invariant:
  assumes "select_simcard d i = Some c" and "\<not> update_keeps_card_consistent c su"
    and "snd (update_simcard d i t su) = Inr c'"
  shows "\<not> status_invariant (fst (update_simcard d i t su))"
proof -
  let ?F = "simcard_update_fields t su"
  let ?rows = "map (\<lambda>r. if sc_id r = i then sql_set ?F r else r) (simcards d)"
  from assms(2) have
    "\<not> ((su_status su = None \<and> su_assignedTo su = None) \<or> card_consistent (sql_set ?F c))"
    unfolding keeps_iff_merged [of c su t] .
  then have some: "su_status su \<noteq> None \<or> su_assignedTo su \<noteq> None"
    and bad: "\<not> card_consistent (sql_set ?F c)"
    by auto
  from some have nonempty: "0 < length ?F"
    by (auto simp: simcard_update_fields_def)
  from assms(3) have noerr: "\<not> (0 < length ?F \<and> \<not> distinct (map sc_code ?rows))"
    by (auto simp: update_simcard_found [OF assms(1)] split: if_splits)
  have fst_eq: "fst (update_simcard d i t su) = d\<lparr>simcards := ?rows\<rparr>"
    using noerr nonempty by (simp only: update_simcard_found [OF assms(1)] if_False if_True fst_conv)
  from select_simcard_SomeD [OF assms(1)] have c: "c \<in> set (simcards d)" "sc_id c = i" by simp_all
  then have mem: "sql_set ?F c \<in> set ?rows" by force
  then have "sql_set ?F c \<in> set (simcards (d\<lparr>simcards := ?rows\<rparr>))" by simp
  with bad show ?thesis
    unfolding fst_eq status_invariant_iff by blast
qed

text \<open>
  C5 as stated fails: \<open>update_simcard\<close> writes \<open>status\<close> and \<open>assignedTo\<close>
  independently of each other. After the two calls of \<open>sold_unassigned_calls\<close> the card
  has status \<open>sold\<close> and \<open>assignedTo\<close> NULL.
\<close>

theorem status_invariant_counterexample:
  "\<not> status_invariant (run sold_unassigned_calls)"
  by (simp add: sold_unassigned_calls_def eval_defs status_invariant_def)

text \<open>
  C5, amended: the invariant (status \<open>available\<close> implies \<open>assignedTo\<close> NULL, status
  \<open>assigned\<close> or \<open>sold\<close> implies \<open>assignedTo\<close> set) holds in every state reached from
  the empty database by calls of the nine writing handlers, \<open>update_simcard\<close> included,
  provided that every call of \<open>update_simcard\<close> that finds its row has a body that
  keeps the row consistent: the body has neither \<open>status\<close> nor \<open>assignedTo\<close>, or the
  status and the \<open>assignedTo\<close> of the row after the update fit each other. By
  \<open>update_breaks_invariant\<close> no weaker condition on the bodies will do: a successful update
  with any other body leaves a state in which the invariant fails.
\<close>

theorem status_invariant_with_consistent_updates:
  "consistent_updates calls init_database \<Longrightarrow> status_invariant (run calls)"
  unfolding run_def
  by (rule status_invariant_fold)
     (simp_all add: init_database_def status_invariant_def db_constraints_def)

theorem status_invariant_with_consistent_updates_witness:
  "map sc_status (simcards (run sale_calls)) = [''sold'', ''available''] \<and>
   map sc_assignedTo (simcards (run sale_calls)) = [Some ''shop-1'', None] \<and>
   map sc_code (simcards (run sale_calls)) = [''C1'', ''C9'']"
proof -
  have h: "consistent_updates sale_calls init_database"
    by (simp add: sale_calls_def demo_calls_def eval_defs update_keeps_card_consistent_def)
  from status_invariant_with_consistent_updates [OF h] show ?thesis
    by (simp add: sale_calls_def demo_calls_def eval_defs)
qed

end
